theory Spec2Isabelle
  imports Main "HOL-Library.Word"
begin

unbundle bit_operations_syntax

section \<open>Bytes, JavaScript values and errors\<close>

text \<open>
  A \<^verbatim>\<open>Uint8Array\<close> is a list of 8-bit words. Every \<^verbatim>\<open>throw\<close> of the helper
  class and of the libraries it calls is a value of \<open>error\<close>, named after the place that
  raises it:
  \<^item> \<open>UnsupportedKeyFormat\<close>: \<^verbatim>\<open>throw new Error('Unsupported key format')\<close> in \<^verbatim>\<open>to32u8\<close>;
  \<^item> \<open>NonBase58Character\<close>: \<^verbatim>\<open>bs58.decode\<close> on a character outside the alphabet;
  \<^item> \<open>InvalidPrivateKey\<close>, \<open>InvalidPublicKey\<close>, \<open>InvalidScalar\<close>: the checks of
    \<^verbatim>\<open>@noble/secp256k1\<close> on a private key, a public key and a scalar of \<^verbatim>\<open>multiply\<close>;
  \<^item> \<open>EmptyBigInt\<close>: \<^verbatim>\<open>BigInt('0x')\<close>, a SyntaxError;
  \<^item> \<open>EphemeralKeyMismatch\<close>: \<^verbatim>\<open>throw new Error('Decryption failed ...')\<close> in
    \<^verbatim>\<open>decryptEphemeralPrivKey\<close>, the specification's DecryptionFailure;
  \<^item> \<open>TypeError\<close>: a TypeError of the platform, raised by \<^verbatim>\<open>String\<close>,
    \<^verbatim>\<open>Buffer.from\<close> or \<^verbatim>\<open>Uint8Array.from\<close> on a value they do not take.
\<close>

type_synonym u8 = "8 word"
type_synonym bytes = "u8 list"

datatype error =
    UnsupportedKeyFormat
  | NonBase58Character
  | InvalidPrivateKey
  | InvalidPublicKey
  | InvalidScalar
  | EmptyBigInt
  | EphemeralKeyMismatch
  | TypeError

text \<open>A statement that may raise is followed by the rest of the function only when it
  returns: \<open>and_then m f\<close> passes the value of \<open>m\<close> to \<open>f\<close>, and an error of \<open>m\<close> is
  the error of the whole.\<close>

fun and_then :: "error + 'a \<Rightarrow> ('a \<Rightarrow> error + 'b) \<Rightarrow> error + 'b" where
  "and_then (Inl e) f = Inl e"
| "and_then (Inr x) f = f x"

text \<open>
  A JavaScript string is a sequence of UTF-16 code units. The texts the libraries write
  (hexadecimal, Base58) are lists of 8-bit characters; \<open>js\<close> is the JavaScript string
  such a text spells, and \<open>latin1\<close> reads a JavaScript string back as 8-bit characters
  when all its code units are below 256.
\<close>

type_synonym js_string = "16 word list"

definition js :: "string \<Rightarrow> js_string" where
  "js cs = map (\<lambda>c. of_nat (of_char c)) cs"

definition latin1 :: "js_string \<Rightarrow> string option" where
  "latin1 s =
     (if list_all (\<lambda>u. unat u < 256) s then Some (map (\<lambda>u. char_of (unat u)) s) else None)"

text \<open>
  The shapes of the argument \<^verbatim>\<open>raw\<close> of \<^verbatim>\<open>to32u8\<close>: a \<^verbatim>\<open>Uint8Array\<close> (a Node
  \<^verbatim>\<open>Buffer\<close> is one), a string, the plain object that \<^verbatim>\<open>Buffer.toJSON\<close> gives
  (\<^verbatim>\<open>type\<close> is \<^verbatim>\<open>'Buffer'\<close> and \<^verbatim>\<open>data\<close> is an array of integers), and any other
  value. Of another value \<^verbatim>\<open>to32u8\<close> reads four things, each of which the platform may
  refuse with an error:
  \<^item> \<open>String_of\<close>: its string conversion \<^verbatim>\<open>String(raw)\<close>, which \<^verbatim>\<open>RegExp.test\<close>
    applies to an argument that is not a string (\<^verbatim>\<open>'null'\<close> for \<^verbatim>\<open>null\<close>, the
    elements joined by commas for an array, \<^verbatim>\<open>'[object Object]'\<close> for a plain object);
  \<^item> \<open>Buffer_from_of\<close>: what \<^verbatim>\<open>Buffer.from(raw, 'hex')\<close> returns (for an array, one
    byte an element; a TypeError for \<^verbatim>\<open>null\<close> or a number);
  \<^item> \<open>type_is_Buffer\<close>: whether \<^verbatim>\<open>raw?.type === 'Buffer'\<close>;
  \<^item> \<open>Uint8Array_from_data\<close>: what \<^verbatim>\<open>Uint8Array.from(raw.data)\<close> returns.
\<close>

record js_value =
  String_of :: "error + js_string"
  Buffer_from_of :: "error + bytes"
  type_is_Buffer :: "error + bool"
  Uint8Array_from_data :: "error + bytes"

datatype raw_key = U8 bytes | Str js_string | BufferJSON "int list" | Other js_value

subsection \<open>Hexadecimal\<close>

definition hex_digits :: string where
  "hex_digits = ''0123456789abcdef''"

fun index_of :: "'a \<Rightarrow> 'a list \<Rightarrow> nat option" where
  "index_of x [] = None"
| "index_of x (y # ys) = (if x = y then Some 0 else map_option Suc (index_of x ys))"

text \<open>The value of a hexadecimal digit, of either case.\<close>

definition hex_val :: "char \<Rightarrow> nat option" where
  "hex_val c =
     (case index_of c hex_digits of
        Some v \<Rightarrow> Some v
      | None \<Rightarrow> map_option (\<lambda>i. i + 10) (index_of c ''ABCDEF''))"

text \<open>The test \<^verbatim>\<open>/^[0-9a-f]{64}$/i\<close>.\<close>

definition is_hex64 :: "string \<Rightarrow> bool" where
  "is_hex64 s \<longleftrightarrow> length s = 64 \<and> list_all (\<lambda>c. hex_val c \<noteq> None) s"

text \<open>\<^verbatim>\<open>Buffer.from(s, 'hex')\<close>: two digits a byte, stopping at the first pair that is not
  hexadecimal.\<close>

fun hex_decode :: "string \<Rightarrow> bytes" where
  "hex_decode (a # b # cs) =
     (case (hex_val a, hex_val b) of
        (Some x, Some y) \<Rightarrow> of_nat (16 * x + y) # hex_decode cs
      | _ \<Rightarrow> [])"
| "hex_decode _ = []"

text \<open>\<^verbatim>\<open>Buffer.from(b).toString('hex')\<close>: two lowercase digits a byte.\<close>

definition hex_byte :: "u8 \<Rightarrow> string" where
  "hex_byte b = [hex_digits ! (unat b div 16), hex_digits ! (unat b mod 16)]"

definition hex_encode :: "bytes \<Rightarrow> string" where
  "hex_encode bs = concat (map hex_byte bs)"

subsection \<open>Big-endian numbers\<close>

definition nat_of_digits :: "nat \<Rightarrow> nat list \<Rightarrow> nat" where
  "nat_of_digits b ds = foldl (\<lambda>a d. a * b + d) 0 ds"

function digits_of_nat :: "nat \<Rightarrow> nat \<Rightarrow> nat list" where
  "digits_of_nat b n =
     (if n = 0 \<or> b < 2 then [] else digits_of_nat b (n div b) @ [n mod b])"
  by pat_completeness auto
termination
  by (relation "measure snd") auto

declare digits_of_nat.simps [simp del]

text \<open>The number a byte string spells, most significant byte first: what
  \<^verbatim>\<open>BigInt('0x' + Buffer.from(b).toString('hex'))\<close> computes for a non-empty \<^verbatim>\<open>b\<close>.\<close>

definition be_nat :: "bytes \<Rightarrow> nat" where
  "be_nat bs = nat_of_digits 256 (map unat bs)"

definition bigint_of_bytes :: "bytes \<Rightarrow> error + nat" where
  "bigint_of_bytes bs = (if bs = [] then Inl EmptyBigInt else Inr (be_nat bs))"

subsection \<open>Base58\<close>

text \<open>
  The package \<^verbatim>\<open>bs58\<close> (Bitcoin alphabet, no checksum): every leading zero byte is a
  leading \<^verbatim>\<open>'1'\<close>, and the rest is the number the bytes spell, written in base 58.
  \<^verbatim>\<open>decode\<close> raises on a character outside the alphabet; the empty string decodes to no
  bytes.
\<close>

definition b58_alphabet :: string where
  "b58_alphabet = ''123456789ABCDEFGHJKLMNPQRSTUVWXYZabcdefghijkmnopqrstuvwxyz''"

definition bs58_encode :: "bytes \<Rightarrow> string" where
  "bs58_encode bs =
     replicate (length (takeWhile (\<lambda>b. b = 0) bs)) (CHR ''1'') @
     map (\<lambda>d. b58_alphabet ! d) (digits_of_nat 58 (be_nat (dropWhile (\<lambda>b. b = 0) bs)))"

fun b58_values :: "string \<Rightarrow> nat list option" where
  "b58_values [] = Some []"
| "b58_values (c # cs) =
     (case index_of c b58_alphabet of
        None \<Rightarrow> None
      | Some d \<Rightarrow> map_option ((#) d) (b58_values cs))"

definition bs58_decode :: "string \<Rightarrow> bytes option" where
  "bs58_decode s =
     (case b58_values s of
        None \<Rightarrow> None
      | Some ds \<Rightarrow>
          Some (replicate (length (takeWhile (\<lambda>d. d = 0) ds)) 0 @
                map of_nat (digits_of_nat 256 (nat_of_digits 58 (dropWhile (\<lambda>d. d = 0) ds)))))"

section \<open>Key codec\<close>

text \<open>
  On a JavaScript string: the test \<^verbatim>\<open>/^[0-9a-f]{64}$/i\<close>, \<^verbatim>\<open>Buffer.from(s, 'hex')\<close>
  and \<^verbatim>\<open>bs58.decode(s)\<close>. A code unit above 255 is no hexadecimal digit and no
  character of the Base58 alphabet: the test fails, the hexadecimal decoding stops there
  and \<^verbatim>\<open>bs58.decode\<close> raises.
\<close>

definition test_hex64 :: "js_string \<Rightarrow> bool" where
  "test_hex64 s = (case latin1 s of None \<Rightarrow> False | Some cs \<Rightarrow> is_hex64 cs)"

definition Buffer_from_hex :: "js_string \<Rightarrow> bytes" where
  "Buffer_from_hex s =
     hex_decode (map (\<lambda>u. char_of (unat u)) (takeWhile (\<lambda>u. unat u < 256) s))"

definition bs58_decode_js :: "js_string \<Rightarrow> bytes option" where
  "bs58_decode_js s = (case latin1 s of None \<Rightarrow> None | Some cs \<Rightarrow> bs58_decode cs)"

text \<open>
  \<^verbatim>\<open>to32u8(raw)\<close>, in the order of its tests: a \<^verbatim>\<open>Uint8Array\<close> is returned as it is;
  a value whose string conversion is 64 hexadecimal digits goes to
  \<^verbatim>\<open>Buffer.from(raw, 'hex')\<close>, which decodes a string as hexadecimal; any other string
  goes to \<^verbatim>\<open>bs58.decode\<close>; a value whose \<^verbatim>\<open>type\<close> is \<^verbatim>\<open>'Buffer'\<close> gives
  \<^verbatim>\<open>Uint8Array.from(raw.data)\<close> (each entry modulo 256); and everything else raises.
  The string conversion of the object of \<^verbatim>\<open>Buffer.toJSON\<close> is
  \<^verbatim>\<open>'[object Object]'\<close>, which fails the test.
\<close>

definition to32u8 :: "raw_key \<Rightarrow> error + bytes" where
  "to32u8 raw =
     (case raw of
        U8 u \<Rightarrow> Inr u
      | Str s \<Rightarrow>
          if test_hex64 s then Inr (Buffer_from_hex s)
          else (case bs58_decode_js s of None \<Rightarrow> Inl NonBase58Character | Some b \<Rightarrow> Inr b)
      | BufferJSON d \<Rightarrow> Inr (map of_int d)
      | Other v \<Rightarrow>
          and_then (String_of v) (\<lambda>t.
            if test_hex64 t then Buffer_from_of v
            else and_then (type_is_Buffer v) (\<lambda>b.
              if b then Uint8Array_from_data v else Inl UnsupportedKeyFormat)))"

section \<open>The libraries\<close>

text \<open>
  The helper class computes with \<^verbatim>\<open>@noble/secp256k1\<close> (version 1: \<^verbatim>\<open>secp.Point\<close>,
  \<^verbatim>\<open>secp.CURVE\<close>), \<^verbatim>\<open>@noble/hashes\<close>, Node's \<^verbatim>\<open>crypto.randomBytes\<close> and the Aptos
  SDK. They are parameters of the model, a record \<open>L\<close>:
  \<^item> \<open>CURVE_n\<close>, \<open>BASE\<close>: the group order \<^verbatim>\<open>secp.CURVE.n\<close> and the generator
    \<^verbatim>\<open>secp.Point.BASE\<close>; \<open>'p\<close> is the type of curve points, the identity included;
  \<open>point_add\<close>, \<open>point_mul\<close>: point addition and the multiple of a point;
  \<^item> \<open>fromHex\<close>, \<open>toRawBytes\<close>: \<^verbatim>\<open>Point.fromHex\<close> (\<open>None\<close> where it raises) and
    \<^verbatim>\<open>toRawBytes(isCompressed)\<close>;
  \<^item> \<open>sha256\<close>, \<open>sha3_256\<close>: the hash functions;
  \<^item> \<open>randomBytes\<close>: the bytes this call of \<^verbatim>\<open>randomBytes\<close> draws;
  \<^item> \<open>sdkAccountAddress\<close>: the string
    \<^verbatim>\<open>Account.fromPrivateKey({privateKey: new Secp256k1PrivateKey(b)}).accountAddress.toString()\<close>.
\<close>

record 'p libs =
  CURVE_n :: nat
  BASE :: 'p
  point_add :: "'p \<Rightarrow> 'p \<Rightarrow> 'p"
  point_mul :: "nat \<Rightarrow> 'p \<Rightarrow> 'p"
  fromHex :: "bytes \<Rightarrow> 'p option"
  toRawBytes :: "'p \<Rightarrow> bool \<Rightarrow> bytes"
  sha256 :: "bytes \<Rightarrow> bytes"
  sha3_256 :: "bytes \<Rightarrow> bytes"
  randomBytes :: "nat \<Rightarrow> bytes"
  sdkAccountAddress :: "bytes \<Rightarrow> string"

text \<open>\<^verbatim>\<open>normalizePrivateKey\<close> of a \<^verbatim>\<open>Uint8Array\<close>: 32 bytes spelling a number
  \<open>0 < k < n\<close>.\<close>

definition normalizePrivateKey :: "'p libs \<Rightarrow> bytes \<Rightarrow> error + nat" where
  "normalizePrivateKey L key =
     (if length key \<noteq> 32 then Inl InvalidPrivateKey
      else if 0 < be_nat key \<and> be_nat key < CURVE_n L then Inr (be_nat key)
      else Inl InvalidPrivateKey)"

text \<open>\<^verbatim>\<open>Point.multiply(scalar)\<close> refuses a scalar outside \<open>0 < scalar < n\<close>.\<close>

definition multiply :: "'p libs \<Rightarrow> 'p \<Rightarrow> nat \<Rightarrow> error + 'p" where
  "multiply L P scalar =
     (if 0 < scalar \<and> scalar < CURVE_n L then Inr (point_mul L scalar P)
      else Inl InvalidScalar)"

text \<open>\<^verbatim>\<open>secp.getPublicKey(privateKey, true)\<close>.\<close>

definition getPublicKey :: "'p libs \<Rightarrow> bytes \<Rightarrow> error + bytes" where
  "getPublicKey L privateKey =
     (case normalizePrivateKey L privateKey of
        Inl e \<Rightarrow> Inl e
      | Inr k \<Rightarrow> Inr (toRawBytes L (point_mul L k (BASE L)) True))"

text \<open>\<^verbatim>\<open>secp.getSharedSecret(privateA, publicB, true)\<close>: the first argument must not
  look like a public key (33 or 65 bytes), the second must, and must decode to a point.\<close>

definition getSharedSecret :: "'p libs \<Rightarrow> bytes \<Rightarrow> bytes \<Rightarrow> error + bytes" where
  "getSharedSecret L privateA publicB =
     (if length privateA = 33 \<or> length privateA = 65 then Inl InvalidPrivateKey
      else if \<not> (length publicB = 33 \<or> length publicB = 65) then Inl InvalidPublicKey
      else (case fromHex L publicB of
              None \<Rightarrow> Inl InvalidPublicKey
            | Some B \<Rightarrow>
                (case normalizePrivateKey L privateA of
                   Inl e \<Rightarrow> Inl e
                 | Inr k \<Rightarrow> Inr (toRawBytes L (point_mul L k B) True))))"

section \<open>Address encoder\<close>

text \<open>\<^verbatim>\<open>secp256k1PointToAptosAddress(point)\<close>: the buffer \<^verbatim>\<open>data\<close> is written at the
  offsets 0, 1, 2 and \<open>2 + length\<close>, which is the concatenation below.\<close>

definition secp256k1PointToAptosAddress :: "'p libs \<Rightarrow> bytes \<Rightarrow> error + string" where
  "secp256k1PointToAptosAddress L point =
     (case fromHex L point of
        None \<Rightarrow> Inl InvalidPublicKey
      | Some P \<Rightarrow>
          (let uncompressedPubKey = toRawBytes L P False;
               keyTypePrefix = [0x01];
               keyLength = [0x41];
               authScheme = [0x02];
               data = keyTypePrefix @ keyLength @ uncompressedPubKey @ authScheme;
               authKey = sha3_256 L data
           in Inr (''0x'' @ hex_encode authKey)))"

section \<open>Encryption and decryption\<close>

text \<open>A read of a typed array past its end is \<^verbatim>\<open>undefined\<close>, which \<^verbatim>\<open>^\<close> takes as 0.\<close>

definition byte_at :: "bytes \<Rightarrow> nat \<Rightarrow> u8" where
  "byte_at bs i = (if i < length bs then bs ! i else 0)"

text \<open>The loop \<^verbatim>\<open>for (i = 0; i < plain.length; i++) enc[i] = plain[i] ^ keyBytes[i % 32]\<close>.\<close>

definition xor_keystream :: "bytes \<Rightarrow> bytes \<Rightarrow> bytes" where
  "xor_keystream keyBytes plain =
     map (\<lambda>i. plain ! i XOR byte_at keyBytes (i mod 32)) [0..<length plain]"

definition encryptEphemeralPrivKey :: "'p libs \<Rightarrow> raw_key \<Rightarrow> raw_key \<Rightarrow> error + string" where
  "encryptEphemeralPrivKey L ephPriv32 metaViewPub =
     and_then (to32u8 ephPriv32) (\<lambda>priv.
     and_then (to32u8 metaViewPub) (\<lambda>viewPub.
     and_then (getSharedSecret L priv viewPub) (\<lambda>shared.
     let keyBytes = sha256 L (drop 1 shared) in
     and_then (getPublicKey L priv) (\<lambda>ephPub.
     let plain = priv @ ephPub;
         enc = xor_keystream keyBytes plain;
         nonce = randomBytes L 24
     in Inr (bs58_encode (nonce @ enc))))))"

text \<open>\<^verbatim>\<open>computedPub.every((b, i) => b === receivedPub[i])\<close>.\<close>

definition every_equal :: "bytes \<Rightarrow> bytes \<Rightarrow> bool" where
  "every_equal computedPub receivedPub \<longleftrightarrow>
     list_all (\<lambda>i. i < length receivedPub \<and> computedPub ! i = receivedPub ! i)
       [0..<length computedPub]"

definition decryptEphemeralPrivKey ::
  "'p libs \<Rightarrow> string \<Rightarrow> raw_key \<Rightarrow> raw_key \<Rightarrow> error + bytes" where
  "decryptEphemeralPrivKey L encodedPayload metaViewPriv ephPub =
     (case bs58_decode encodedPayload of
        None \<Rightarrow> Inl NonBase58Character
      | Some payload \<Rightarrow>
          (let encrypted = drop 24 payload in
           and_then (to32u8 metaViewPriv) (\<lambda>viewPriv.
           and_then (to32u8 ephPub) (\<lambda>pub.
           and_then (getSharedSecret L viewPriv pub) (\<lambda>shared.
           let keyBytes = sha256 L (drop 1 shared);
               dec = xor_keystream keyBytes encrypted;
               ephPriv32 = take 32 dec;
               receivedPub = drop 32 dec
           in and_then (getPublicKey L ephPriv32) (\<lambda>computedPub.
              if \<not> every_equal computedPub receivedPub then Inl EphemeralKeyMismatch
              else Inr ephPriv32))))))"

section \<open>Notes\<close>

text \<open>
  \<^verbatim>\<open>new TextEncoder().encode\<close> reads a JavaScript string as code points, a surrogate
  that has no partner becoming U+FFFD, and writes each code point in UTF-8.
\<close>

definition is_high_surrogate :: "nat \<Rightarrow> bool" where
  "is_high_surrogate u \<longleftrightarrow> 0xD800 \<le> u \<and> u \<le> 0xDBFF"

definition is_low_surrogate :: "nat \<Rightarrow> bool" where
  "is_low_surrogate u \<longleftrightarrow> 0xDC00 \<le> u \<and> u \<le> 0xDFFF"

fun code_points :: "nat list \<Rightarrow> nat list" where
  "code_points [] = []"
| "code_points [u] = [if is_high_surrogate u \<or> is_low_surrogate u then 0xFFFD else u]"
| "code_points (u # v # us) =
     (if is_high_surrogate u \<and> is_low_surrogate v
      then (0x10000 + (u - 0xD800) * 0x400 + (v - 0xDC00)) # code_points us
      else (if is_high_surrogate u \<or> is_low_surrogate u then 0xFFFD else u)
             # code_points (v # us))"

definition utf8_of_code_point :: "nat \<Rightarrow> nat list" where
  "utf8_of_code_point c =
     (if c < 0x80 then [c]
      else if c < 0x800 then [0xC0 + c div 0x40, 0x80 + c mod 0x40]
      else if c < 0x10000 then
        [0xE0 + c div 0x1000, 0x80 + c div 0x40 mod 0x40, 0x80 + c mod 0x40]
      else [0xF0 + c div 0x40000, 0x80 + c div 0x1000 mod 0x40,
            0x80 + c div 0x40 mod 0x40, 0x80 + c mod 0x40])"

definition TextEncoder_encode :: "js_string \<Rightarrow> bytes" where
  "TextEncoder_encode str =
     map of_nat (concat (map utf8_of_code_point (code_points (map unat str))))"

text \<open>
  \<^verbatim>\<open>new TextDecoder().decode\<close> (UTF-8, not fatal, \<^verbatim>\<open>ignoreBOM\<close> false): the decoder
  of the Encoding standard. Its state is the code point read so far, the number of
  continuation bytes still needed and the bounds of the next one. A byte that cannot
  continue a sequence ends it with U+FFFD and is read again as a first byte.
\<close>

function utf8_decoder :: "nat \<Rightarrow> nat \<Rightarrow> nat \<Rightarrow> nat \<Rightarrow> nat list \<Rightarrow> nat list" where
  "utf8_decoder cp needed lower upper [] = (if needed \<noteq> 0 then [0xFFFD] else [])"
| "utf8_decoder cp needed lower upper (b # bs) =
     (if needed = 0 then
        (if b \<le> 0x7F then b # utf8_decoder 0 0 0x80 0xBF bs
         else if 0xC2 \<le> b \<and> b \<le> 0xDF then utf8_decoder (b - 0xC0) 1 0x80 0xBF bs
         else if 0xE0 \<le> b \<and> b \<le> 0xEF then
           utf8_decoder (b - 0xE0) 2
             (if b = 0xE0 then 0xA0 else 0x80) (if b = 0xED then 0x9F else 0xBF) bs
         else if 0xF0 \<le> b \<and> b \<le> 0xF4 then
           utf8_decoder (b - 0xF0) 3
             (if b = 0xF0 then 0x90 else 0x80) (if b = 0xF4 then 0x8F else 0xBF) bs
         else 0xFFFD # utf8_decoder 0 0 0x80 0xBF bs)
      else if \<not> (lower \<le> b \<and> b \<le> upper) then
        0xFFFD # utf8_decoder 0 0 0x80 0xBF (b # bs)
      else if needed = 1 then (cp * 0x40 + (b - 0x80)) # utf8_decoder 0 0 0x80 0xBF bs
      else utf8_decoder (cp * 0x40 + (b - 0x80)) (needed - 1) 0x80 0xBF bs)"
  by pat_completeness auto
termination
  by (relation "measure (\<lambda>(cp, needed, lower, upper, bs).
        2 * length bs + (if needed = 0 then 0 else 1))") auto

declare utf8_decoder.simps [simp del]

definition utf16_of_code_point :: "nat \<Rightarrow> nat list" where
  "utf16_of_code_point c =
     (if c < 0x10000 then [c]
      else [0xD800 + (c - 0x10000) div 0x400, 0xDC00 + (c - 0x10000) mod 0x400])"

text \<open>A byte order mark at the start of the input is dropped before decoding.\<close>

definition strip_bom :: "nat list \<Rightarrow> nat list" where
  "strip_bom bs = (if take 3 bs = [0xEF, 0xBB, 0xBF] then drop 3 bs else bs)"

definition TextDecoder_decode :: "bytes \<Rightarrow> js_string" where
  "TextDecoder_decode bs =
     map of_nat (concat (map utf16_of_code_point
       (utf8_decoder 0 0 0x80 0xBF (strip_bom (map unat bs)))))"

text \<open>
  The strings that have a UTF-8 form of their own: a Unicode scalar value is a code point
  that is no surrogate, and a string is well formed when every high surrogate is followed
  by a low one and no low surrogate stands alone.
\<close>

definition scalar_value :: "nat \<Rightarrow> bool" where
  "scalar_value c \<longleftrightarrow> c < 0x110000 \<and> \<not> (0xD800 \<le> c \<and> c \<le> 0xDFFF)"

fun well_formed_utf16 :: "nat list \<Rightarrow> bool" where
  "well_formed_utf16 [] = True"
| "well_formed_utf16 [u] = (\<not> is_high_surrogate u \<and> \<not> is_low_surrogate u)"
| "well_formed_utf16 (u # v # us) =
     (if is_high_surrogate u then is_low_surrogate v \<and> well_formed_utf16 us
      else \<not> is_low_surrogate u \<and> well_formed_utf16 (v # us))"

definition encryptNote :: "'p libs \<Rightarrow> js_string \<Rightarrow> raw_key \<Rightarrow> raw_key \<Rightarrow> error + bytes" where
  "encryptNote L plaintext ephPriv32 metaViewPub =
     and_then (to32u8 ephPriv32) (\<lambda>priv.
     and_then (to32u8 metaViewPub) (\<lambda>viewPub.
     and_then (getSharedSecret L priv viewPub) (\<lambda>shared.
     let keyBytes = sha256 L (drop 1 shared);
         plaintextBytes = TextEncoder_encode plaintext;
         enc = xor_keystream keyBytes plaintextBytes;
         nonce = randomBytes L 24
     in Inr (nonce @ enc))))"

definition decryptNote :: "'p libs \<Rightarrow> bytes \<Rightarrow> raw_key \<Rightarrow> raw_key \<Rightarrow> error + js_string" where
  "decryptNote L encryptedBytes metaViewPriv ephPub =
     (let encrypted = drop 24 encryptedBytes in
      and_then (to32u8 metaViewPriv) (\<lambda>viewPriv.
      and_then (to32u8 ephPub) (\<lambda>pub.
      and_then (getSharedSecret L viewPriv pub) (\<lambda>shared.
      let keyBytes = sha256 L (drop 1 shared);
          dec = xor_keystream keyBytes encrypted
      in Inr (TextDecoder_decode dec)))))"

section \<open>Stealth derivation\<close>

text \<open>
  The scalar \<^verbatim>\<open>stealthPrivScalar\<close> is written as 64 hexadecimal digits
  (\<^verbatim>\<open>toString(16).padStart(64, '0')\<close>) and read back two digits a byte: for a scalar
  below \<open>2 ^ 256\<close>, which every residue modulo the curve order is, these are its 32
  bytes, most significant first.
\<close>

definition bytes32_of_nat :: "nat \<Rightarrow> bytes" where
  "bytes32_of_nat k = map (\<lambda>i. of_nat (k div 256 ^ (31 - i) mod 256)) [0..<32]"

record stealth_pub =
  stealthPubKeyB58 :: string
  stealthAptosAddress :: string
  stealthPubKeyBytes :: bytes

record stealth_keypair =
  stealthAddress :: string
  privateKey :: bytes
  publicKeyBase58 :: string

definition deriveStealthPub ::
  "'p libs \<Rightarrow> raw_key \<Rightarrow> raw_key \<Rightarrow> raw_key \<Rightarrow> error + stealth_pub" where
  "deriveStealthPub L metaSpendPubB58 metaViewPubB58 ephPriv32 =
     and_then (to32u8 ephPriv32) (\<lambda>priv.
     and_then (to32u8 metaViewPubB58) (\<lambda>viewPub.
     and_then (getSharedSecret L priv viewPub) (\<lambda>shared.
     let tweak = sha256 L (drop 1 shared) in
     and_then (bigint_of_bytes tweak) (\<lambda>tweakInt.
     let tweakScalar = tweakInt mod CURVE_n L in
     and_then (multiply L (BASE L) tweakScalar) (\<lambda>tweakPoint.
     and_then (to32u8 metaSpendPubB58) (\<lambda>spendPub.
     (case fromHex L spendPub of
        None \<Rightarrow> Inl InvalidPublicKey
      | Some metaSpendPoint \<Rightarrow>
          (let stealthPoint = point_add L metaSpendPoint tweakPoint;
               stealthPubKeyBytes = toRawBytes L stealthPoint True
           in and_then (secp256k1PointToAptosAddress L stealthPubKeyBytes)
                (\<lambda>stealthAptosAddress.
                   Inr \<lparr> stealthPubKeyB58 = bs58_encode stealthPubKeyBytes,
                         stealthAptosAddress = stealthAptosAddress,
                         stealthPubKeyBytes = stealthPubKeyBytes \<rparr>)))))))))"

definition deriveStealthKeypair ::
  "'p libs \<Rightarrow> raw_key \<Rightarrow> raw_key \<Rightarrow> raw_key \<Rightarrow> error + stealth_keypair" where
  "deriveStealthKeypair L metaSpendPriv metaViewPriv ephPub =
     and_then (to32u8 metaViewPriv) (\<lambda>viewPriv.
     and_then (to32u8 ephPub) (\<lambda>pub.
     and_then (getSharedSecret L viewPriv pub) (\<lambda>shared.
     let tweak = sha256 L (drop 1 shared) in
     and_then (bigint_of_bytes tweak) (\<lambda>tweakInt.
     let tweakScalar = tweakInt mod CURVE_n L in
     and_then (to32u8 metaSpendPriv) (\<lambda>metaSpendPrivBytes.
     and_then (bigint_of_bytes metaSpendPrivBytes) (\<lambda>spendInt.
     let metaSpendScalar = spendInt mod CURVE_n L;
         stealthPrivScalar = (metaSpendScalar + tweakScalar) mod CURVE_n L;
         stealthPrivBytes = bytes32_of_nat stealthPrivScalar
     in and_then (getPublicKey L stealthPrivBytes) (\<lambda>stealthPubKeyBytes.
        Inr \<lparr> stealthAddress = sdkAccountAddress L stealthPrivBytes,
              privateKey = stealthPrivBytes,
              publicKeyBase58 = bs58_encode stealthPubKeyBytes \<rparr>)))))))"

text \<open>The scalar \<^verbatim>\<open>tweakScalar\<close> that the first lines of both derivations compute from a
  private key and a public key.\<close>

definition tweakScalar :: "'p libs \<Rightarrow> bytes \<Rightarrow> bytes \<Rightarrow> error + nat" where
  "tweakScalar L priv pub =
     and_then (getSharedSecret L priv pub) (\<lambda>shared.
     let tweak = sha256 L (drop 1 shared) in
     and_then (bigint_of_bytes tweak) (\<lambda>tweakInt. Inr (tweakInt mod CURVE_n L)))"

section \<open>What is assumed of the libraries\<close>

text \<open>
  The points the program meets are multiples of the generator. On them the curve is a
  group of order \<open>n\<close>, with \<open>n\<close> below \<open>2 ^ 256\<close>: multiples compose, adding two
  multiples adds their scalars, the scalar counts modulo \<open>n\<close>, and two scalars below
  \<open>n\<close> with the same multiple are equal.
\<close>

definition group_laws :: "'p libs \<Rightarrow> bool" where
  "group_laws L \<longleftrightarrow>
     1 < CURVE_n L \<and> CURVE_n L \<le> 2 ^ 256 \<and>
     (\<forall>a b. point_mul L a (point_mul L b (BASE L)) = point_mul L (a * b) (BASE L)) \<and>
     (\<forall>a b. point_add L (point_mul L a (BASE L)) (point_mul L b (BASE L)) =
            point_mul L (a + b) (BASE L)) \<and>
     (\<forall>k. point_mul L (k mod CURVE_n L) (BASE L) = point_mul L k (BASE L)) \<and>
     (\<forall>a b. a < CURVE_n L \<longrightarrow> b < CURVE_n L \<longrightarrow>
            point_mul L a (BASE L) = point_mul L b (BASE L) \<longrightarrow> a = b)"

text \<open>A compressed point is 33 bytes and an uncompressed one 65; \<^verbatim>\<open>Point.fromHex\<close>
  reads back the compressed form of every multiple \<open>k G\<close> with \<open>0 < k < n\<close>.\<close>

definition encoding_laws :: "'p libs \<Rightarrow> bool" where
  "encoding_laws L \<longleftrightarrow>
     (\<forall>P. length (toRawBytes L P True) = 33) \<and>
     (\<forall>P. length (toRawBytes L P False) = 65) \<and>
     (\<forall>k. 0 < k \<longrightarrow> k < CURVE_n L \<longrightarrow>
          fromHex L (toRawBytes L (point_mul L k (BASE L)) True) =
            Some (point_mul L k (BASE L)))"

text \<open>Both hashes are 32 bytes long, and \<^verbatim>\<open>randomBytes(k)\<close> is \<open>k\<close> bytes.\<close>

definition hash_laws :: "'p libs \<Rightarrow> bool" where
  "hash_laws L \<longleftrightarrow>
     (\<forall>bs. length (sha256 L bs) = 32) \<and>
     (\<forall>bs. length (sha3_256 L bs) = 32) \<and>
     (\<forall>k. length (randomBytes L k) = k)"

text \<open>
  The address the SDK gives the account of a secp256k1 private key \<open>k\<close> is the
  authentication key of its single-key scheme: SHA3-256 of the BCS bytes of the public
  key (variant 1, length 65, the uncompressed point) followed by the scheme byte 2, in
  hexadecimal after \<^verbatim>\<open>0x\<close>.
\<close>

definition sdk_parity :: "'p libs \<Rightarrow> bool" where
  "sdk_parity L \<longleftrightarrow>
     (\<forall>k. 0 < k \<longrightarrow> k < CURVE_n L \<longrightarrow>
          sdkAccountAddress L (bytes32_of_nat k) =
            ''0x'' @ hex_encode (sha3_256 L
              ([0x01] @ [0x41] @ toRawBytes L (point_mul L k (BASE L)) False @ [0x02])))"

text \<open>A key pair is valid when both halves are readable and the public half is the
  public key of the private one.\<close>

definition valid_keypair :: "'p libs \<Rightarrow> raw_key \<Rightarrow> raw_key \<Rightarrow> bool" where
  "valid_keypair L priv pub \<longleftrightarrow>
     (case (to32u8 priv, to32u8 pub) of
        (Inr a, Inr b) \<Rightarrow> getPublicKey L a = Inr b
      | _ \<Rightarrow> False)"

text \<open>One bit of one byte of a blob flipped.\<close>

definition flip_blob_bit :: "bytes \<Rightarrow> nat \<Rightarrow> nat \<Rightarrow> bytes" where
  "flip_blob_bit blob i j = blob[i := blob ! i XOR push_bit j 1]"

subsection \<open>A small instance\<close>

text \<open>
  The assumptions hold of a small stand-in for the libraries, on which the functions can
  be run: the group of integers modulo the prime 251 with generator 1, a point written
  as its residue after 31 zero bytes, and two checksums for the hashes.
\<close>

definition small_toRawBytes :: "nat \<Rightarrow> bool \<Rightarrow> bytes" where
  "small_toRawBytes P isCompressed =
     (if isCompressed then 0x02 # replicate 31 0 @ [of_nat P]
      else 0x04 # replicate 31 0 @ [of_nat P] @ replicate 31 0 @ [of_nat (P * P mod 251)])"

definition small_fromHex :: "bytes \<Rightarrow> nat option" where
  "small_fromHex bs =
     (if length bs = 33 \<and> take 32 bs = 0x02 # replicate 31 0 \<and>
         0 < unat (bs ! 32) \<and> unat (bs ! 32) < 251
      then Some (unat (bs ! 32)) else None)"

definition small_sha256 :: "bytes \<Rightarrow> bytes" where
  "small_sha256 bs = (let t = foldl (+) 0 bs in map (\<lambda>i. t + 3 * of_nat i + 1) [0..<32])"

definition small_sha3_256 :: "bytes \<Rightarrow> bytes" where
  "small_sha3_256 bs = replicate 31 0xA5 @ [foldl (+) 0 bs]"

definition small_libs :: "nat libs" where
  "small_libs =
     \<lparr> CURVE_n = 251,
       BASE = 1,
       point_add = (\<lambda>P Q. (P + Q) mod 251),
       point_mul = (\<lambda>k P. k * P mod 251),
       fromHex = small_fromHex,
       toRawBytes = small_toRawBytes,
       sha256 = small_sha256,
       sha3_256 = small_sha3_256,
       randomBytes = (\<lambda>k. replicate k 0x5A),
       sdkAccountAddress = (\<lambda>b. ''0x'' @ hex_encode (small_sha3_256
         ([0x01] @ [0x41] @ small_toRawBytes (be_nat b mod 251) False @ [0x02]))) \<rparr>"

section \<open>Properties of the codecs\<close>

subsection \<open>Digits\<close>

lemma nat_of_digits_snoc: "nat_of_digits b (ds @ [d]) = nat_of_digits b ds * b + d"
  by (simp add: nat_of_digits_def)

lemma nat_of_digits_Nil: "nat_of_digits b [] = 0"
  by (simp add: nat_of_digits_def)

lemma digits_of_nat_0: "digits_of_nat b 0 = []"
  by (subst digits_of_nat.simps) simp

lemma digits_of_nat_step:
  "2 \<le> b \<Longrightarrow> 0 < n \<Longrightarrow> digits_of_nat b n = digits_of_nat b (n div b) @ [n mod b]"
  by (subst digits_of_nat.simps) simp

lemma nat_of_digits_of_nat: "2 \<le> b \<Longrightarrow> nat_of_digits b (digits_of_nat b n) = n"
proof (induction n rule: less_induct)
  case (less n)
  show ?case
  proof (cases "n = 0")
    case True
    then show ?thesis by (simp add: nat_of_digits_Nil digits_of_nat_0)
  next
    case False
    then have "n div b < n" using less.prems by simp
    then have "nat_of_digits b (digits_of_nat b (n div b)) = n div b"
      using less by blast
    moreover have "0 < n" using False by simp
    ultimately show ?thesis
      unfolding digits_of_nat_step [OF less.prems \<open>0 < n\<close>] nat_of_digits_snoc by simp
  qed
qed

lemma digits_of_nat_lt: "2 \<le> b \<Longrightarrow> d \<in> set (digits_of_nat b n) \<Longrightarrow> d < b"
proof (induction n arbitrary: d rule: less_induct)
  case (less n)
  show ?case
  proof (cases "n = 0")
    case True
    with less.prems show ?thesis by (simp add: digits_of_nat_0)
  next
    case False
    then have lt: "n div b < n" using less.prems by simp
    from False have "0 < n" by simp
    from less.prems(2) have "d \<in> set (digits_of_nat b (n div b)) \<or> d = n mod b"
      unfolding digits_of_nat_step [OF less.prems(1) \<open>0 < n\<close>] by auto
    then show ?thesis
    proof
      assume "d \<in> set (digits_of_nat b (n div b))"
      with less.IH [OF lt] less.prems(1) show ?thesis by blast
    next
      assume "d = n mod b"
      with less.prems(1) show ?thesis by simp
    qed
  qed
qed

lemma digits_of_nat_hd:
  "2 \<le> b \<Longrightarrow> 0 < n \<Longrightarrow> digits_of_nat b n \<noteq> [] \<and> hd (digits_of_nat b n) \<noteq> 0"
proof (induction n rule: less_induct)
  case (less n)
  show ?case
  proof (cases "n div b = 0")
    case True
    with less.prems have "n < b" by (simp add: div_eq_0_iff)
    then have "n mod b \<noteq> 0" using less.prems by simp
    then show ?thesis
      unfolding digits_of_nat_step [OF less.prems] True digits_of_nat_0 by simp
  next
    case False
    then have lt: "n div b < n" and pos: "0 < n div b" using less.prems by simp_all
    from less.IH [OF lt less.prems(1) pos] show ?thesis
      unfolding digits_of_nat_step [OF less.prems] by simp
  qed
qed

lemma digits_of_nat_of_digits:
  "2 \<le> b \<Longrightarrow> \<forall>d \<in> set ds. d < b \<Longrightarrow> ds = [] \<or> hd ds \<noteq> 0 \<Longrightarrow>
   digits_of_nat b (nat_of_digits b ds) = ds"
proof (induction ds rule: rev_induct)
  case Nil
  then show ?case by (simp add: nat_of_digits_Nil digits_of_nat_0)
next
  case (snoc d ds)
  have lt: "d < b" using snoc.prems(2) by simp
  have all: "\<forall>d \<in> set ds. d < b" using snoc.prems(2) by simp
  show ?case
  proof (cases "ds = []")
    case True
    from snoc.prems(3) True have "0 < d" by simp
    have "digits_of_nat b d = [d]"
      unfolding digits_of_nat_step [OF snoc.prems(1) \<open>0 < d\<close>] using lt
      by (simp add: digits_of_nat_0)
    with True show ?thesis
      by (simp add: nat_of_digits_def)
  next
    case False
    with snoc.prems(3) have "hd ds \<noteq> 0" by simp
    with snoc.IH [OF snoc.prems(1) all] have ih: "digits_of_nat b (nat_of_digits b ds) = ds"
      by simp
    have pos: "0 < nat_of_digits b ds"
    proof (rule ccontr)
      assume "\<not> 0 < nat_of_digits b ds"
      then have "nat_of_digits b ds = 0" by simp
      with ih have "ds = []" by (simp add: digits_of_nat_0)
      with False show False by simp
    qed
    have d1: "(nat_of_digits b ds * b + d) div b = nat_of_digits b ds"
      using lt by simp
    have d2: "(nat_of_digits b ds * b + d) mod b = d" using lt by simp
    have d3: "0 < nat_of_digits b ds * b + d" using pos snoc.prems(1) by simp
    have "digits_of_nat b (nat_of_digits b ds * b + d) =
          digits_of_nat b ((nat_of_digits b ds * b + d) div b) @ [(nat_of_digits b ds * b + d) mod b]"
      by (rule digits_of_nat_step [OF snoc.prems(1) d3])
    also have "\<dots> = ds @ [d]"
      by (simp only: d1 d2 ih)
    finally show ?thesis
      by (simp only: nat_of_digits_snoc)
  qed
qed


subsection \<open>Bytes and Base58\<close>

lemma be_nat_snoc: "be_nat (bs @ [b]) = be_nat bs * 256 + unat b"
  by (simp add: be_nat_def nat_of_digits_snoc)

lemma map_of_nat_unat: "map of_nat (map unat bs) = (bs :: bytes)"
  by (induction bs) simp_all

lemma digits_256_be_nat:
  assumes "bs = [] \<or> hd bs \<noteq> 0"
  shows "map of_nat (digits_of_nat 256 (be_nat bs)) = bs"
proof -
  have lt: "\<forall>d \<in> set (map unat bs). d < 256"
  proof
    fix d assume "d \<in> set (map unat bs)"
    then obtain b :: u8 where "d = unat b" by auto
    moreover have "unat b < 2 ^ LENGTH(8)" by (rule unsigned_less)
    ultimately show "d < 256" by simp
  qed
  have hd: "map unat bs = [] \<or> hd (map unat bs) \<noteq> 0"
    using assms by (cases bs) (simp_all add: unat_eq_0)
  have "digits_of_nat 256 (nat_of_digits 256 (map unat bs)) = map unat bs"
    by (rule digits_of_nat_of_digits [OF _ lt hd]) simp
  then have "(map of_nat (digits_of_nat 256 (be_nat bs)) :: bytes) = map of_nat (map unat bs)"
    by (simp only: be_nat_def)
  then show ?thesis
    by (simp only: map_of_nat_unat)
qed

lemma index_of_nth:
  "distinct xs \<Longrightarrow> i < length xs \<Longrightarrow> index_of (xs ! i) xs = Some i"
proof (induction xs arbitrary: i)
  case Nil
  then show ?case by simp
next
  case (Cons x xs)
  show ?case
  proof (cases i)
    case 0
    then show ?thesis by simp
  next
    case (Suc j)
    with Cons.prems have "xs ! j \<in> set xs" "x \<notin> set xs" by simp_all
    then have "xs ! j \<noteq> x" by blast
    with Suc Cons show ?thesis by simp
  qed
qed

lemma index_of_Some: "index_of x xs = Some i \<Longrightarrow> i < length xs \<and> xs ! i = x"
  by (induction xs arbitrary: i) (auto split: if_splits)

lemma distinct_b58_alphabet: "distinct b58_alphabet"
  by (simp add: b58_alphabet_def)

lemma length_b58_alphabet: "length b58_alphabet = 58"
  by (simp add: b58_alphabet_def)

lemma b58_values_digits:
  "\<forall>d \<in> set ds. d < 58 \<Longrightarrow> b58_values (map (\<lambda>d. b58_alphabet ! d) ds) = Some ds"
  by (induction ds) (simp_all add: index_of_nth distinct_b58_alphabet length_b58_alphabet)

lemma b58_values_ones:
  "b58_values (replicate z (CHR ''1'') @ s) = map_option ((@) (replicate z 0)) (b58_values s)"
proof (induction z)
  case 0
  show ?case by (simp add: option.map_ident)
next
  case (Suc z)
  have "index_of (CHR ''1'') b58_alphabet = Some 0"
    by (simp add: b58_alphabet_def)
  with Suc show ?case by (simp add: option.map_comp comp_def)
qed

lemma takeWhile_replicate_append:
  "ds = [] \<or> hd ds \<noteq> c \<Longrightarrow> takeWhile (\<lambda>x. x = c) (replicate z c @ ds) = replicate z c"
  by (induction z) (auto simp: takeWhile_eq_Nil_iff)

lemma dropWhile_replicate_append:
  "ds = [] \<or> hd ds \<noteq> c \<Longrightarrow> dropWhile (\<lambda>x. x = c) (replicate z c @ ds) = ds"
  by (induction z) (auto simp: dropWhile_eq_self_iff)

lemma takeWhile_eq_replicate: "takeWhile (\<lambda>b. b = c) bs = replicate (length (takeWhile (\<lambda>b. b = c) bs)) c"
  by (induction bs) simp_all

lemma dropWhile_zero_hd: "dropWhile (\<lambda>b. b = c) bs = [] \<or> hd (dropWhile (\<lambda>b. b = c) bs) \<noteq> c"
  using hd_dropWhile [of "\<lambda>b. b = c" bs] by blast

text \<open>Decoding what \<^verbatim>\<open>bs58.encode\<close> wrote gives the bytes back.\<close>

lemma bs58_roundtrip: "bs58_decode (bs58_encode bs) = Some bs"
proof -
  define z where "z = length (takeWhile (\<lambda>b. b = 0) bs)"
  define rest where "rest = dropWhile (\<lambda>b. b = 0) bs"
  define ds where "ds = digits_of_nat 58 (be_nat rest)"
  have bs: "bs = replicate z 0 @ rest"
    unfolding z_def rest_def
    using takeWhile_eq_replicate [of 0 bs] takeWhile_dropWhile_id [of "\<lambda>b. b = 0" bs] by simp
  have rest: "rest = [] \<or> hd rest \<noteq> 0"
    unfolding rest_def by (rule dropWhile_zero_hd)
  have lt: "\<forall>d \<in> set ds. d < 58"
    unfolding ds_def using digits_of_nat_lt [of 58] by auto
  have hd: "ds = [] \<or> hd ds \<noteq> 0"
  proof (cases "be_nat rest = 0")
    case True
    then show ?thesis by (simp add: ds_def digits_of_nat_0)
  next
    case False
    then show ?thesis unfolding ds_def using digits_of_nat_hd [of 58 "be_nat rest"] by simp
  qed
  have enc: "bs58_encode bs = replicate z (CHR ''1'') @ map (\<lambda>d. b58_alphabet ! d) ds"
    by (simp add: bs58_encode_def z_def ds_def rest_def)
  have vals: "b58_values (bs58_encode bs) = Some (replicate z 0 @ ds)"
    by (simp add: enc b58_values_ones b58_values_digits [OF lt])
  have tw: "takeWhile (\<lambda>d. d = 0) (replicate z 0 @ ds) = replicate z 0"
    by (rule takeWhile_replicate_append [OF hd])
  have dw: "dropWhile (\<lambda>d. d = 0) (replicate z 0 @ ds) = ds"
    by (rule dropWhile_replicate_append [OF hd])
  have num: "nat_of_digits 58 ds = be_nat rest"
    unfolding ds_def by (rule nat_of_digits_of_nat) simp
  have "bs58_decode (bs58_encode bs) = Some (replicate z 0 @ map of_nat (digits_of_nat 256 (be_nat rest)))"
    by (simp add: bs58_decode_def vals tw dw num)
  also have "\<dots> = Some bs"
    by (simp add: digits_256_be_nat [OF rest] bs [symmetric])
  finally show ?thesis .
qed

subsection \<open>The keystream\<close>

lemma length_xor_keystream [simp]: "length (xor_keystream K P) = length P"
  by (simp add: xor_keystream_def)

lemma nth_xor_keystream:
  "i < length P \<Longrightarrow> xor_keystream K P ! i = P ! i XOR byte_at K (i mod 32)"
  by (simp add: xor_keystream_def)

lemma xor_twice: "(a XOR k) XOR k = (a :: u8)"
  by (simp add: xor.assoc)

lemma xor_keystream_involution: "xor_keystream K (xor_keystream K P) = P"
proof (rule nth_equalityI)
  show "length (xor_keystream K (xor_keystream K P)) = length P" by simp
next
  fix i assume "i < length (xor_keystream K (xor_keystream K P))"
  then have i: "i < length P" by simp
  then show "xor_keystream K (xor_keystream K P) ! i = P ! i"
    by (simp only: nth_xor_keystream length_xor_keystream xor_twice)
qed

lemma xor_keystream_update:
  assumes "i < length C"
  shows "xor_keystream K (C[i := C ! i XOR m]) =
         (xor_keystream K C)[i := xor_keystream K C ! i XOR m]"
proof (rule nth_equalityI)
  show "length (xor_keystream K (C[i := C ! i XOR m])) =
        length ((xor_keystream K C)[i := xor_keystream K C ! i XOR m])" by simp
next
  fix j assume "j < length (xor_keystream K (C[i := C ! i XOR m]))"
  then have j: "j < length C" by simp
  show "xor_keystream K (C[i := C ! i XOR m]) ! j =
        (xor_keystream K C)[i := xor_keystream K C ! i XOR m] ! j"
  proof (cases "j = i")
    case True
    with assms show ?thesis
      by (simp add: nth_xor_keystream xor.assoc xor.commute)
  next
    case False
    with j show ?thesis
      by (simp add: nth_xor_keystream)
  qed
qed

subsection \<open>Scalars as 32 bytes\<close>

lemma foldl_digits:
  fixes b :: nat
  shows "foldl (\<lambda>a d. a * b + d) a ds =
         a * b ^ length ds + foldl (\<lambda>a d. a * b + d) 0 ds"
proof -
  define F where "F = foldl (\<lambda>a d. a * b + d)"
  have F_Cons: "F a (d # ds) = F (a * b + d) ds" for a d ds
    by (simp add: F_def)
  have "F a ds = a * b ^ length ds + F 0 ds" for a
  proof (induction ds arbitrary: a)
    case Nil
    show ?case by (simp add: F_def)
  next
    case (Cons d ds)
    have F0: "F 0 (d # ds) = d * b ^ length ds + F 0 ds"
      using Cons.IH [of d] by (simp add: F_Cons)
    have "F a (d # ds) = (a * b + d) * b ^ length ds + F 0 ds"
      by (simp only: F_Cons Cons.IH [of "a * b + d"])
    also have "\<dots> = a * b ^ length (d # ds) + (d * b ^ length ds + F 0 ds)"
      by (simp add: algebra_simps)
    also have "\<dots> = a * b ^ length (d # ds) + F 0 (d # ds)"
      by (simp only: F0)
    finally show ?case .
  qed
  then have "F a ds = a * b ^ length ds + F 0 ds" .
  then show ?thesis unfolding F_def .
qed

lemma nat_of_digits_Cons: "nat_of_digits b (d # ds) = d * b ^ length ds + nat_of_digits b ds"
  using foldl_digits [of b d ds] by (simp add: nat_of_digits_def)

lemma nat_of_digits_be:
  "nat_of_digits 256 (map (\<lambda>i. k div 256 ^ (m - Suc i) mod 256) [0..<m]) = k mod 256 ^ m"
proof (induction m)
  case 0
  show ?case by (simp add: nat_of_digits_Nil)
next
  case (Suc m)
  have "[0..<Suc m] = 0 # map Suc [0..<m]"
    by (simp only: upt_conv_Cons [of 0 "Suc m"] map_Suc_upt zero_less_Suc)
  then have "map (\<lambda>i. k div 256 ^ (Suc m - Suc i) mod 256) [0..<Suc m] =
        (k div 256 ^ m mod 256) # map (\<lambda>i. k div 256 ^ (m - Suc i) mod 256) [0..<m]"
    by (simp add: comp_def del: upt_Suc)
  then have "nat_of_digits 256 (map (\<lambda>i. k div 256 ^ (Suc m - Suc i) mod 256) [0..<Suc m]) =
        (k div 256 ^ m mod 256) * 256 ^ m + k mod 256 ^ m"
    by (simp only: nat_of_digits_Cons Suc.IH length_map length_upt diff_zero)
  also have "\<dots> = k mod (256 ^ m * 256)"
    using mod_mult2_eq [of k "256 ^ m" 256] by (simp add: mult.commute)
  also have "\<dots> = k mod 256 ^ Suc m"
    by (simp only: power_Suc2)
  finally show ?case .
qed

lemma length_bytes32_of_nat [simp]: "length (bytes32_of_nat k) = 32"
  by (simp add: bytes32_of_nat_def del: upt_rec_numeral)

lemma unat_of_nat_mod256: "unat (of_nat (x mod 256) :: u8) = x mod 256"
  by (simp add: unat_of_nat)

lemma be_nat_bytes32_of_nat:
  assumes "k < 2 ^ 256"
  shows "be_nat (bytes32_of_nat k) = k"
proof -
  have "map unat (bytes32_of_nat k) = map (\<lambda>i. k div 256 ^ (31 - i) mod 256) [0..<32]"
    unfolding bytes32_of_nat_def map_map comp_def unat_of_nat_mod256 ..
  also have "\<dots> = map (\<lambda>i. k div 256 ^ (32 - Suc i) mod 256) [0..<32]"
    by (rule map_cong) simp_all
  finally have "be_nat (bytes32_of_nat k) = k mod 256 ^ 32"
    by (simp only: be_nat_def nat_of_digits_be)
  with assms show ?thesis by simp
qed

lemma nat_of_digits_lt:
  "\<forall>d \<in> set ds. d < b \<Longrightarrow> nat_of_digits b ds < b ^ length ds"
proof (induction ds rule: rev_induct)
  case Nil
  show ?case by (simp add: nat_of_digits_Nil)
next
  case (snoc d ds)
  then have lt: "nat_of_digits b ds < b ^ length ds" and d: "d < b" by simp_all
  from d have "nat_of_digits b ds * b + d < (nat_of_digits b ds + 1) * b" by simp
  also have "\<dots> \<le> b ^ length ds * b"
    using lt by (intro mult_le_mono1) simp
  finally show ?case by (simp add: nat_of_digits_snoc mult.commute)
qed

lemma unat_u8_lt: "unat (b :: u8) < 256"
  using unsigned_less [of b, where 'a = nat] by simp

lemma be_nat_lt: "be_nat bs < 256 ^ length bs"
  using nat_of_digits_lt [of "map unat bs" 256] by (simp add: be_nat_def unat_u8_lt)

lemma be_nat_Cons: "be_nat (b # bs) = unat b * 256 ^ length bs + be_nat bs"
  by (simp add: be_nat_def nat_of_digits_Cons)

lemma be_nat_inject:
  "length as = length bs \<Longrightarrow> be_nat as = be_nat bs \<Longrightarrow> as = bs"
proof (induction as bs rule: list_induct2)
  case Nil
  show ?case by simp
next
  case (Cons a as b bs)
  let ?B = "256 ^ length bs :: nat"
  have eq: "unat a * ?B + be_nat as = unat b * ?B + be_nat bs"
    using Cons.prems Cons.hyps by (simp add: be_nat_Cons)
  have la: "be_nat as < ?B" using be_nat_lt [of as] Cons.hyps by simp
  have lb: "be_nat bs < ?B" by (rule be_nat_lt)
  have "(unat a * ?B + be_nat as) div ?B = unat a" using la by simp
  moreover have "(unat b * ?B + be_nat bs) div ?B = unat b" using lb by simp
  ultimately have "unat a = unat b" using eq by simp
  then have ab: "a = b" by (simp add: word_unat_eq_iff)
  with eq have "be_nat as = be_nat bs" by simp
  with Cons.IH ab show ?case by simp
qed

subsection \<open>Hexadecimal text\<close>

lemma length_hex_encode: "length (hex_encode bs) = 2 * length bs"
  by (induction bs) (simp_all add: hex_encode_def hex_byte_def)

lemma length_hex_digits: "length hex_digits = 16"
  by (simp add: hex_digits_def)

lemma set_hex_encode: "set (hex_encode bs) \<subseteq> set hex_digits"
proof -
  have "set (hex_byte b) \<subseteq> set hex_digits" for b
  proof -
    have "unat b div 16 < length hex_digits"
      using unat_u8_lt [of b] by (simp add: length_hex_digits)
    moreover have "unat b mod 16 < length hex_digits"
      by (simp add: length_hex_digits)
    ultimately show ?thesis
      by (simp add: hex_byte_def)
  qed
  then show ?thesis by (auto simp: hex_encode_def)
qed

subsection \<open>The key codec\<close>




lemma replicate_numeral_conv: "replicate (numeral k) x = x # replicate (pred_numeral k) x"
  by (simp add: numeral_eq_Suc)


text \<open>JavaScript strings of 8-bit characters.\<close>

lemma unat_js_unit: "unat (of_nat (of_char c) :: 16 word) = of_char c"
proof -
  have "(of_char c :: nat) < 65536"
    using nat_of_char_less_256 [of c] by linarith
  then show ?thesis by (simp add: unat_of_nat)
qed

lemma latin1_js: "latin1 (js cs) = Some cs"
  by (simp add: latin1_def js_def list_all_iff unat_js_unit map_idI)





lemma js_set_lt: "u \<in> set (js cs) \<Longrightarrow> unat u < 256"
  by (auto simp: js_def unat_js_unit)

lemma test_hex64_js: "test_hex64 (js cs) = is_hex64 cs"
  by (simp add: test_hex64_def latin1_js)

lemma bs58_decode_js_js: "bs58_decode_js (js cs) = bs58_decode cs"
  by (simp add: bs58_decode_js_def latin1_js)

lemma Buffer_from_hex_js: "Buffer_from_hex (js cs) = hex_decode cs"
proof -
  have tw: "takeWhile (\<lambda>u. unat u < 256) (js cs) = js cs"
    by (rule takeWhile_eq_all_conv [THEN iffD2]) (simp add: js_set_lt)
  have mp: "map (\<lambda>u. char_of (unat u)) (js cs) = cs"
    by (simp add: js_def unat_js_unit map_idI)
  show ?thesis by (simp only: Buffer_from_hex_def tw mp)
qed



lemma to32u8_U8: "to32u8 (U8 u) = Inr u"
  by (simp add: to32u8_def)

lemma to32u8_Str_js:
  "to32u8 (Str (js cs)) =
     (if is_hex64 cs then Inr (hex_decode cs)
      else (case bs58_decode cs of None \<Rightarrow> Inl NonBase58Character | Some b \<Rightarrow> Inr b))"
  by (simp add: to32u8_def test_hex64_js Buffer_from_hex_js bs58_decode_js_js)

text \<open>A decoding is checked without dividing: the digits of the string and the bytes
  spell the same number.\<close>

lemma bs58_decode_check:
  assumes vals: "b58_values s = Some (replicate z 0 @ ds)"
    and ds: "ds = [] \<or> hd ds \<noteq> 0"
    and num: "nat_of_digits 58 ds = be_nat bs"
    and bs: "bs = [] \<or> hd bs \<noteq> 0"
  shows "bs58_decode s = Some (replicate z 0 @ bs)"
proof -
  have tw: "takeWhile (\<lambda>d. d = 0) (replicate z 0 @ ds) = replicate z 0"
    by (rule takeWhile_replicate_append [OF ds])
  have dw: "dropWhile (\<lambda>d. d = 0) (replicate z 0 @ ds) = ds"
    by (rule dropWhile_replicate_append [OF ds])
  show ?thesis
    by (simp add: bs58_decode_def vals tw dw num digits_256_be_nat [OF bs])
qed

section \<open>Claims about the key codec\<close>

text \<open>
  C10. For every \<^verbatim>\<open>Uint8Array\<close> \<open>u\<close>, of any length, \<^verbatim>\<open>to32u8(u)\<close> returns \<open>u\<close>
  unchanged; and for every JavaScript string that is not 64 hexadecimal digits,
  \<^verbatim>\<open>to32u8\<close> returns what \<^verbatim>\<open>bs58.decode\<close> returns for it (and raises where
  \<^verbatim>\<open>bs58.decode\<close> raises), whatever the length of the decoding: every byte string \<open>b\<close>
  is returned for its own Base58 text, unless that text happens to be 64 hexadecimal
  digits. Neither path checks a length.
\<close>

theorem to32u8_no_length_validation:
  "to32u8 (U8 u) = Inr u \<and>
   (\<not> test_hex64 s \<longrightarrow>
      to32u8 (Str s) =
        (case bs58_decode_js s of None \<Rightarrow> Inl NonBase58Character | Some b \<Rightarrow> Inr b)) \<and>
   (\<not> test_hex64 (js (bs58_encode b)) \<longrightarrow> to32u8 (Str (js (bs58_encode b))) = Inr b)"
  by (simp add: to32u8_def bs58_decode_js_js bs58_roundtrip)

theorem to32u8_no_length_validation_witness:
  "to32u8 (U8 [1, 2, 3]) = Inr [1, 2, 3] \<and>
   to32u8 (Str (js ''bw4ozgmGjBZ87oKPWSe2Ra1PD6m4CrwvsxaF8WAjGEkW'')) = Inr (2 # replicate 32 7) \<and>
   to32u8 (Str (js (bs58_encode []))) = Inr []"
proof -
  have h1: "\<not> test_hex64 (js ''bw4ozgmGjBZ87oKPWSe2Ra1PD6m4CrwvsxaF8WAjGEkW'')"
    by (simp add: test_hex64_js is_hex64_def)
  have vals: "b58_values ''bw4ozgmGjBZ87oKPWSe2Ra1PD6m4CrwvsxaF8WAjGEkW'' =
        Some (replicate 0 0 @ [34, 54, 3, 46, 57, 39, 44, 15, 42, 10, 32, 7, 6, 46, 18, 22, 29, 25, 37, 1, 24, 33, 0, 22, 12, 5, 44, 3, 11, 49, 54, 53, 50, 55, 33, 14, 7, 29, 9, 42, 15, 13, 43, 29])"
    by (simp add: b58_alphabet_def)
  have num: "nat_of_digits 58 [34, 54, 3, 46, 57, 39, 44, 15, 42, 10, 32, 7, 6, 46, 18, 22, 29, 25, 37, 1, 24, 33, 0, 22, 12, 5, 44, 3, 11, 49, 54, 53, 50, 55, 33, 14, 7, 29, 9, 42, 15, 13, 43, 29] = be_nat (2 # replicate 32 7)"
    by (simp add: nat_of_digits_def be_nat_def replicate_numeral_conv)
  have "bs58_decode ''bw4ozgmGjBZ87oKPWSe2Ra1PD6m4CrwvsxaF8WAjGEkW'' =
        Some (replicate 0 0 @ 2 # replicate 32 7)"
    by (rule bs58_decode_check [OF vals _ num]) simp_all
  then have d1: "bs58_decode_js (js ''bw4ozgmGjBZ87oKPWSe2Ra1PD6m4CrwvsxaF8WAjGEkW'') =
        Some (2 # replicate 32 7)"
    by (simp add: bs58_decode_js_js)
  have h2: "\<not> test_hex64 (js (bs58_encode []))"
    by (simp add: test_hex64_js bs58_encode_def be_nat_def nat_of_digits_def digits_of_nat_0
        is_hex64_def)
  show ?thesis
    using to32u8_no_length_validation
      [of "[1, 2, 3]" "js ''bw4ozgmGjBZ87oKPWSe2Ra1PD6m4CrwvsxaF8WAjGEkW''" "[]"]
      h1 d1 h2
    by simp
qed




section \<open>Properties of the library calls\<close>

lemma normalizePrivateKey_Inr:
  "normalizePrivateKey L key = Inr k \<longleftrightarrow>
     length key = 32 \<and> be_nat key = k \<and> 0 < k \<and> k < CURVE_n L"
  by (auto simp: normalizePrivateKey_def)

lemma getPublicKey_Inr:
  "getPublicKey L key = Inr pub \<longleftrightarrow>
     length key = 32 \<and> 0 < be_nat key \<and> be_nat key < CURVE_n L \<and>
     pub = toRawBytes L (point_mul L (be_nat key) (BASE L)) True"
  by (auto simp: getPublicKey_def normalizePrivateKey_def)

lemma getPublicKey_Inl:
  "getPublicKey L key = Inl e \<longleftrightarrow>
     e = InvalidPrivateKey \<and> \<not> (length key = 32 \<and> 0 < be_nat key \<and> be_nat key < CURVE_n L)"
  by (auto simp: getPublicKey_def normalizePrivateKey_def)

lemma valid_keypair_iff:
  "valid_keypair L priv pub \<longleftrightarrow>
     (\<exists>a. to32u8 priv = Inr a \<and> length a = 32 \<and> 0 < be_nat a \<and> be_nat a < CURVE_n L \<and>
          to32u8 pub = Inr (toRawBytes L (point_mul L (be_nat a) (BASE L)) True))"
  by (cases "to32u8 priv"; cases "to32u8 pub") (auto simp: valid_keypair_def getPublicKey_Inr)

text \<open>Diffie-Hellman: the secret of a private key and the public key of another scalar
  is the multiple by the product of the two scalars.\<close>

lemma getSharedSecret_public:
  assumes g: "group_laws L" and c: "encoding_laws L"
    and a: "length a = 32" "0 < be_nat a" "be_nat a < CURVE_n L"
    and b: "0 < kb" "kb < CURVE_n L"
  shows "getSharedSecret L a (toRawBytes L (point_mul L kb (BASE L)) True) =
         Inr (toRawBytes L (point_mul L (be_nat a * kb) (BASE L)) True)"
proof -
  have len: "length (toRawBytes L (point_mul L kb (BASE L)) True) = 33"
    using c by (simp add: encoding_laws_def)
  have dec: "fromHex L (toRawBytes L (point_mul L kb (BASE L)) True) =
             Some (point_mul L kb (BASE L))"
    using c b by (simp add: encoding_laws_def)
  have mul: "point_mul L (be_nat a) (point_mul L kb (BASE L)) =
             point_mul L (be_nat a * kb) (BASE L)"
    using g by (simp add: group_laws_def)
  show ?thesis
    using a by (simp add: getSharedSecret_def len dec mul normalizePrivateKey_def)
qed

lemma getSharedSecret_length:
  "encoding_laws L \<Longrightarrow> getSharedSecret L a b = Inr shared \<Longrightarrow> length shared = 33"
  by (auto simp: getSharedSecret_def encoding_laws_def split: if_splits option.splits sum.splits)


subsection \<open>The small instance\<close>

lemma small_libs_group: "group_laws small_libs"
  by (simp add: group_laws_def small_libs_def mod_mult_right_eq mod_add_eq mod_mult_left_eq)

lemma unat_of_nat_u8: "k < 256 \<Longrightarrow> unat (of_nat k :: u8) = k"
  by (simp add: unat_of_nat)

lemma small_fromHex_toRawBytes:
  "0 < P \<Longrightarrow> P < 251 \<Longrightarrow> small_fromHex (small_toRawBytes P True) = Some P"
  by (simp add: small_fromHex_def small_toRawBytes_def nth_append unat_of_nat_u8)

lemma small_libs_encoding: "encoding_laws small_libs"
  by (simp add: encoding_laws_def small_libs_def small_fromHex_toRawBytes)
     (simp add: small_toRawBytes_def)

lemma small_libs_hash: "hash_laws small_libs"
  by (simp add: hash_laws_def small_libs_def small_sha256_def small_sha3_256_def Let_def
      del: upt_rec_numeral)

lemma small_libs_sdk: "sdk_parity small_libs"
  by (simp add: sdk_parity_def small_libs_def be_nat_bytes32_of_nat)

section \<open>Keys of the small instance\<close>

lemma small_view_pub_b58:
  "bs58_decode ''bTdjzaWCb6UY9AZqTMMbPSc3VzHeVR9By6ueiqrY2uVg'' = Some (2 # replicate 31 0 @ [7])"
proof -
  have vals: "b58_values ''bTdjzaWCb6UY9AZqTMMbPSc3VzHeVR9By6ueiqrY2uVg'' =
        Some (replicate 0 0 @ [34, 26, 36, 42, 57, 33, 29, 11, 34, 5, 27, 31, 8, 9, 32, 48, 26, 20, 20, 34, 22, 25, 35, 2, 28, 57, 16, 37, 28, 24, 8, 10, 56, 5, 52, 37, 41, 48, 49, 31, 1, 52, 28, 39])"
    by (simp add: b58_alphabet_def)
  have num: "nat_of_digits 58 [34, 26, 36, 42, 57, 33, 29, 11, 34, 5, 27, 31, 8, 9, 32, 48, 26, 20, 20, 34, 22, 25, 35, 2, 28, 57, 16, 37, 28, 24, 8, 10, 56, 5, 52, 37, 41, 48, 49, 31, 1, 52, 28, 39] = be_nat (2 # replicate 31 0 @ [7])"
    by (simp add: nat_of_digits_def be_nat_def replicate_numeral_conv)
  have "bs58_decode ''bTdjzaWCb6UY9AZqTMMbPSc3VzHeVR9By6ueiqrY2uVg'' =
        Some (replicate 0 0 @ 2 # replicate 31 0 @ [7])"
    by (rule bs58_decode_check [OF vals _ num]) simp_all
  then show ?thesis by simp
qed

lemma small_view_pub:
  "to32u8 (Str (js ''bTdjzaWCb6UY9AZqTMMbPSc3VzHeVR9By6ueiqrY2uVg'')) = Inr (2 # replicate 31 0 @ [7])"
  by (simp add: to32u8_Str_js is_hex64_def small_view_pub_b58)

lemma be_nat_small: "be_nat (replicate 31 0 @ [b]) = unat b"
  by (simp add: be_nat_def nat_of_digits_def replicate_numeral_conv)

lemma small_getSharedSecret:
  assumes "0 < unat a" "unat a < 251" "0 < unat b" "unat b < 251"
  shows "getSharedSecret small_libs (replicate 31 0 @ [a]) (2 # replicate 31 0 @ [b]) =
         Inr (2 # replicate 31 0 @ [of_nat (unat a * unat b mod 251)])"
  using assms
  by (simp add: getSharedSecret_def normalizePrivateKey_def be_nat_small small_libs_def
      small_fromHex_def small_toRawBytes_def nth_append)

lemma small_getPublicKey:
  assumes "0 < unat a" "unat a < 251"
  shows "getPublicKey small_libs (replicate 31 0 @ [a]) = Inr (2 # replicate 31 0 @ [a])"
  using assms
  by (simp add: getPublicKey_def normalizePrivateKey_def be_nat_small small_libs_def
      small_toRawBytes_def)

lemma small_sha256_tail:
  "small_sha256 (replicate 31 0 @ [b]) = map (\<lambda>i. b + 3 * of_nat i + 1) [0..<32]"
  by (simp add: small_sha256_def replicate_numeral_conv del: upt_rec_numeral)

text \<open>The view key 7, the ephemeral key 3; their shared point is 21.\<close>

lemma small_shared_3_7:
  "getSharedSecret small_libs (replicate 31 0 @ [3]) (2 # replicate 31 0 @ [7]) =
     Inr (2 # replicate 31 0 @ [21])"
  using small_getSharedSecret [of 3 7] by simp

lemma small_shared_7_3:
  "getSharedSecret small_libs (replicate 31 0 @ [7]) (2 # replicate 31 0 @ [3]) =
     Inr (2 # replicate 31 0 @ [21])"
  using small_getSharedSecret [of 7 3] by simp

lemma map_upt_32:
  "map f [0..<32] =
     [f 0, f 1, f 2, f 3, f 4, f 5, f 6, f 7, f 8, f 9, f 10, f 11, f 12, f 13, f 14, f 15,
      f 16, f 17, f 18, f 19, f 20, f 21, f 22, f 23, f 24, f 25, f 26, f 27, f 28, f 29,
      f 30, f 31]"
proof -
  have "[0..<32] = 0 # 1 # [2..<32]"
    by (simp add: upt_conv_Cons)
  then show ?thesis
    by simp
qed

lemma small_key_21:
  "sha256 small_libs (replicate 31 0 @ [21]) =
     [22, 25, 28, 31, 34, 37, 40, 43, 46, 49, 52, 55, 58, 61, 64, 67,
      70, 73, 76, 79, 82, 85, 88, 91, 94, 97, 100, 103, 106, 109, 112, 115]"
  by (simp add: small_libs_def small_sha256_tail map_upt_32 del: upt_rec_numeral)

section \<open>Claims about the address encoder\<close>

text \<open>
  C3. For every key that \<^verbatim>\<open>Point.fromHex\<close> decodes to a curve point \<open>P\<close>, the address is
  \<^verbatim>\<open>0x\<close> followed by the hexadecimal text of SHA3-256 of the 68 bytes \<open>0x01\<close>,
  \<open>0x41\<close>, the 65 bytes of the uncompressed point, \<open>0x02\<close>; the text after \<^verbatim>\<open>0x\<close> is
  64 characters, each a lowercase hexadecimal digit. The address is a function of the
  key's bytes (and of the two library functions) alone: equal bytes give equal addresses.
\<close>

theorem secp256k1PointToAptosAddress_layout:
  assumes "hash_laws L" and "encoding_laws L" and "fromHex L point = Some P"
  shows "secp256k1PointToAptosAddress L point =
           Inr (''0x'' @ hex_encode (sha3_256 L ([0x01, 0x41] @ toRawBytes L P False @ [0x02]))) \<and>
         length (toRawBytes L P False) = 65 \<and>
         length ([0x01, 0x41] @ toRawBytes L P False @ [0x02]) = 68 \<and>
         length (hex_encode (sha3_256 L ([0x01, 0x41] @ toRawBytes L P False @ [0x02]))) = 64 \<and>
         set (hex_encode (sha3_256 L ([0x01, 0x41] @ toRawBytes L P False @ [0x02])))
           \<subseteq> set hex_digits"
proof -
  have "length (toRawBytes L P False) = 65"
    using assms(2) by (simp add: encoding_laws_def)
  moreover have "length (sha3_256 L ([0x01, 0x41] @ toRawBytes L P False @ [0x02])) = 32"
    using assms(1) by (simp add: hash_laws_def)
  ultimately show ?thesis
    using assms(3) by (simp add: secp256k1PointToAptosAddress_def length_hex_encode set_hex_encode)
qed

theorem secp256k1PointToAptosAddress_layout_witness:
  "secp256k1PointToAptosAddress small_libs (2 # replicate 31 0 @ [3]) =
     Inr ''0xa5a5a5a5a5a5a5a5a5a5a5a5a5a5a5a5a5a5a5a5a5a5a5a5a5a5a5a5a5a5a554'' \<and>
   length (toRawBytes small_libs 3 False) = 65"
proof -
  have dec: "fromHex small_libs (2 # replicate 31 0 @ [3]) = Some 3"
    by (simp add: small_libs_def small_fromHex_def nth_append)
  have hex: "hex_encode (sha3_256 small_libs ([0x01, 0x41] @ toRawBytes small_libs 3 False @ [0x02])) =
        ''a5a5a5a5a5a5a5a5a5a5a5a5a5a5a5a5a5a5a5a5a5a5a5a5a5a5a5a5a5a5a554''"
    by (simp add: small_libs_def small_toRawBytes_def small_sha3_256_def hex_encode_def
        hex_byte_def hex_digits_def replicate_numeral_conv)
  show ?thesis
    using secp256k1PointToAptosAddress_layout [OF small_libs_hash small_libs_encoding dec] hex
    by simp
qed

section \<open>Claims about notes\<close>

text \<open>
  C6. For a private key and a public key whose shared secret \<^verbatim>\<open>getSharedSecret\<close>
  computes, \<^verbatim>\<open>encryptNote\<close> returns \<open>24 + n\<close> bytes, \<open>n\<close> the length of the UTF-8
  bytes of the plaintext: the first 24 are the nonce drawn from \<^verbatim>\<open>randomBytes\<close>, and
  byte \<open>24 + i\<close> is byte \<open>i\<close> of the plaintext XOR byte \<open>i mod 32\<close> of the key, the
  SHA-256 hash of the 32 bytes that follow the first byte of the 33-byte compressed
  shared point.
\<close>

theorem encryptNote_layout:
  assumes "hash_laws L" and "encoding_laws L"
    and "to32u8 ephPriv32 = Inr priv" and "to32u8 metaViewPub = Inr viewPub"
    and "getSharedSecret L priv viewPub = Inr shared"
  shows "\<exists>out. encryptNote L plaintext ephPriv32 metaViewPub = Inr out \<and>
           length out = 24 + length (TextEncoder_encode plaintext) \<and>
           take 24 out = randomBytes L 24 \<and>
           length shared = 33 \<and>
           length (sha256 L (drop 1 shared)) = 32 \<and>
           (\<forall>i < length (TextEncoder_encode plaintext).
              out ! (24 + i) =
                TextEncoder_encode plaintext ! i XOR sha256 L (drop 1 shared) ! (i mod 32))"
proof -
  let ?K = "sha256 L (drop 1 shared)"
  let ?P = "TextEncoder_encode plaintext"
  have nonce: "length (randomBytes L 24) = 24" and key: "length ?K = 32"
    using assms(1) by (simp_all add: hash_laws_def)
  have out: "encryptNote L plaintext ephPriv32 metaViewPub =
             Inr (randomBytes L 24 @ xor_keystream ?K ?P)"
    using assms(3-5) by (simp add: encryptNote_def)
  have "(randomBytes L 24 @ xor_keystream ?K ?P) ! (24 + i) = ?P ! i XOR ?K ! (i mod 32)"
    if "i < length ?P" for i
  proof -
    have "byte_at ?K (i mod 32) = ?K ! (i mod 32)"
      using key by (simp add: byte_at_def)
    with that nonce show ?thesis
      by (simp add: nth_append nth_xor_keystream)
  qed
  with out nonce key getSharedSecret_length [OF assms(2) assms(5)] show ?thesis
    by simp
qed

text \<open>
  C9. Two blobs of equal length that agree from offset 24 on give the same result of
  \<^verbatim>\<open>decryptNote\<close> under the same keys, whatever their first 24 bytes are; with keys
  whose shared secret is computed, that result is the text decoded from the bytes after
  offset 24 XOR the key.
\<close>

theorem decryptNote_ignores_nonce:
  assumes "length blob1 = length blob2" and "drop 24 blob1 = drop 24 blob2"
  shows "decryptNote L blob1 metaViewPriv ephPub = decryptNote L blob2 metaViewPriv ephPub \<and>
         (to32u8 metaViewPriv = Inr viewPriv \<and> to32u8 ephPub = Inr pub \<and>
          getSharedSecret L viewPriv pub = Inr shared \<longrightarrow>
            decryptNote L blob2 metaViewPriv ephPub =
              Inr (TextDecoder_decode (xor_keystream (sha256 L (drop 1 shared)) (drop 24 blob1))))"
  using assms(2) by (simp add: decryptNote_def)


theorem encryptNote_layout_witness:
  "(\<exists>out. encryptNote small_libs [0x48, 0x69] (U8 (replicate 31 0 @ [3]))
             (Str (js ''bTdjzaWCb6UY9AZqTMMbPSc3VzHeVR9By6ueiqrY2uVg'')) = Inr out \<and>
          length out = 24 + length (TextEncoder_encode [0x48, 0x69]) \<and>
          take 24 out = randomBytes small_libs 24 \<and>
          length (2 # replicate 31 0 @ [21 :: u8]) = 33 \<and>
          length (sha256 small_libs (drop 1 (2 # replicate 31 0 @ [21]))) = 32 \<and>
          (\<forall>i < length (TextEncoder_encode [0x48, 0x69]).
             out ! (24 + i) =
               TextEncoder_encode [0x48, 0x69] ! i XOR
               sha256 small_libs (drop 1 (2 # replicate 31 0 @ [21])) ! (i mod 32))) \<and>
   encryptNote small_libs [0x48, 0x69] (U8 (replicate 31 0 @ [3]))
     (Str (js ''bTdjzaWCb6UY9AZqTMMbPSc3VzHeVR9By6ueiqrY2uVg'')) =
     Inr (replicate 24 0x5A @ [0x5E, 0x70])"
proof
  have e: "to32u8 (U8 (replicate 31 0 @ [3])) = Inr (replicate 31 0 @ [3])"
    by (simp add: to32u8_def)
  show "\<exists>out. encryptNote small_libs [0x48, 0x69] (U8 (replicate 31 0 @ [3]))
             (Str (js ''bTdjzaWCb6UY9AZqTMMbPSc3VzHeVR9By6ueiqrY2uVg'')) = Inr out \<and>
          length out = 24 + length (TextEncoder_encode [0x48, 0x69]) \<and>
          take 24 out = randomBytes small_libs 24 \<and>
          length (2 # replicate 31 0 @ [21 :: u8]) = 33 \<and>
          length (sha256 small_libs (drop 1 (2 # replicate 31 0 @ [21]))) = 32 \<and>
          (\<forall>i < length (TextEncoder_encode [0x48, 0x69]).
             out ! (24 + i) =
               TextEncoder_encode [0x48, 0x69] ! i XOR
               sha256 small_libs (drop 1 (2 # replicate 31 0 @ [21])) ! (i mod 32))"
    by (rule encryptNote_layout
          [OF small_libs_hash small_libs_encoding e small_view_pub small_shared_3_7])
  have enc: "TextEncoder_encode [0x48, 0x69] = [0x48, 0x69]"
    by (simp add: TextEncoder_encode_def utf8_of_code_point_def is_high_surrogate_def
        is_low_surrogate_def)
  show "encryptNote small_libs [0x48, 0x69] (U8 (replicate 31 0 @ [3]))
     (Str (js ''bTdjzaWCb6UY9AZqTMMbPSc3VzHeVR9By6ueiqrY2uVg'')) =
     Inr (replicate 24 0x5A @ [0x5E, 0x70])"
    by (simp add: encryptNote_def e small_view_pub small_shared_3_7 small_key_21 enc
        xor_keystream_def byte_at_def Let_def)
       (simp add: small_libs_def)
qed

theorem decryptNote_ignores_nonce_witness:
  "decryptNote small_libs (replicate 24 0x5A @ [0x5E, 0x70]) (U8 (replicate 31 0 @ [7]))
     (U8 (2 # replicate 31 0 @ [3])) =
   decryptNote small_libs (replicate 24 0 @ [0x5E, 0x70]) (U8 (replicate 31 0 @ [7]))
     (U8 (2 # replicate 31 0 @ [3])) \<and>
   decryptNote small_libs (replicate 24 0 @ [0x5E, 0x70]) (U8 (replicate 31 0 @ [7]))
     (U8 (2 # replicate 31 0 @ [3])) = Inr [0x48, 0x69]"
proof -
  have len: "length (replicate 24 0x5A @ [0x5E, 0x70 :: u8]) = length (replicate 24 0 @ [0x5E, 0x70 :: u8])"
    by simp
  have drp: "drop 24 (replicate 24 0x5A @ [0x5E, 0x70 :: u8]) = drop 24 (replicate 24 0 @ [0x5E, 0x70 :: u8])"
    by simp
  have v: "to32u8 (U8 (replicate 31 0 @ [7])) = Inr (replicate 31 0 @ [7])"
    and E: "to32u8 (U8 (2 # replicate 31 0 @ [3])) = Inr (2 # replicate 31 0 @ [3])"
    by (simp_all add: to32u8_def)
  have dec: "TextDecoder_decode (xor_keystream
        (sha256 small_libs (drop 1 (2 # replicate 31 0 @ [21])))
        (drop 24 (replicate 24 0x5A @ [0x5E, 0x70]))) = [0x48, 0x69]"
    by (simp add: small_key_21 xor_keystream_def byte_at_def TextDecoder_decode_def
        strip_bom_def utf8_decoder.simps utf16_of_code_point_def)
  show ?thesis
    using decryptNote_ignores_nonce [OF len drp, of small_libs "U8 (replicate 31 0 @ [7])"
        "U8 (2 # replicate 31 0 @ [3])" "replicate 31 0 @ [7]" "2 # replicate 31 0 @ [3]"
        "2 # replicate 31 0 @ [21]"]
      v E small_shared_7_3 dec
    by simp
qed

section \<open>Claims about the ephemeral-key blob\<close>

lemma length_flip_blob_bit [simp]: "length (flip_blob_bit blob i j) = length blob"
  by (simp add: flip_blob_bit_def)

lemma flip_blob_bit_append_left:
  "i < length a \<Longrightarrow> flip_blob_bit (a @ b) i j = flip_blob_bit a i j @ b"
  by (simp add: flip_blob_bit_def list_update_append nth_append)

lemma flip_blob_bit_append_right:
  "length a \<le> i \<Longrightarrow> flip_blob_bit (a @ b) i j = a @ flip_blob_bit b (i - length a) j"
  by (simp add: flip_blob_bit_def list_update_append nth_append)

lemma xor_keystream_flip_blob_bit:
  "i < length C \<Longrightarrow> xor_keystream K (flip_blob_bit C i j) = flip_blob_bit (xor_keystream K C) i j"
  by (simp add: flip_blob_bit_def xor_keystream_update)

lemma push_bit_u8_nonzero: "j < 8 \<Longrightarrow> (push_bit j 1 :: u8) \<noteq> 0"
  by (simp add: push_bit_eq_mult)

lemma xor_nonzero_neq: "m \<noteq> 0 \<Longrightarrow> b XOR m \<noteq> (b :: u8)"
proof
  assume m: "m \<noteq> 0" and eq: "b XOR m = b"
  have "m = b XOR (b XOR m)" by (simp add: xor.assoc [symmetric])
  with eq have "m = 0" by simp
  with m show False by simp
qed

lemma flip_blob_bit_neq:
  assumes "i < length a" and "j < 8"
  shows "flip_blob_bit a i j \<noteq> a"
proof
  assume "flip_blob_bit a i j = a"
  then have "flip_blob_bit a i j ! i = a ! i" by simp
  with assms(1) have "a ! i XOR push_bit j 1 = a ! i" by (simp add: flip_blob_bit_def)
  with xor_nonzero_neq [OF push_bit_u8_nonzero [OF assms(2)]] show False by blast
qed

lemma every_equal_same_length:
  assumes "length c = length r"
  shows "every_equal c r \<longleftrightarrow> c = r"
proof
  assume "every_equal c r"
  then have "\<forall>i < length c. c ! i = r ! i"
    by (simp add: every_equal_def list_all_iff)
  with assms show "c = r" by (simp add: nth_equalityI)
next
  assume "c = r"
  then show "every_equal c r" by (simp add: every_equal_def list_all_iff)
qed

text \<open>What \<^verbatim>\<open>decryptEphemeralPrivKey\<close> does with the Base58 text of a payload, once the
  shared secret of its keys is known.\<close>

lemma decryptEphemeralPrivKey_payload:
  assumes "to32u8 metaViewPriv = Inr viewPriv" and "to32u8 ephPub = Inr pub"
    and "getSharedSecret L viewPriv pub = Inr shared"
    and "dec = xor_keystream (sha256 L (drop 1 shared)) (drop 24 payload)"
  shows "decryptEphemeralPrivKey L (bs58_encode payload) metaViewPriv ephPub =
         (case getPublicKey L (take 32 dec) of
            Inl e \<Rightarrow> Inl e
          | Inr computedPub \<Rightarrow>
              if every_equal computedPub (drop 32 dec) then Inr (take 32 dec)
              else Inl EphemeralKeyMismatch)"
proof (cases "getPublicKey L (take 32 dec)")
  case (Inl e)
  with assms show ?thesis
    by (simp add: decryptEphemeralPrivKey_def bs58_roundtrip Let_def)
next
  case (Inr computedPub)
  with assms show ?thesis
    by (simp add: decryptEphemeralPrivKey_def bs58_roundtrip Let_def)
qed

text \<open>A payload \<open>nonce @ (plain XOR key)\<close> with one bit of its ciphertext flipped decrypts
  to the plaintext with that bit flipped.\<close>

lemma decrypt_flipped_payload:
  assumes "length nonce = 24" and "24 \<le> i" and "i < 24 + length plain"
  shows "xor_keystream K (drop 24 (flip_blob_bit (nonce @ xor_keystream K plain) i j)) =
         flip_blob_bit plain (i - 24) j"
proof -
  have "flip_blob_bit (nonce @ xor_keystream K plain) i j =
        nonce @ flip_blob_bit (xor_keystream K plain) (i - 24) j"
    using assms(1,2) flip_blob_bit_append_right [of nonce i "xor_keystream K plain" j] by simp
  then have "drop 24 (flip_blob_bit (nonce @ xor_keystream K plain) i j) =
        flip_blob_bit (xor_keystream K plain) (i - 24) j"
    using assms(1) by simp
  also have "\<dots> = xor_keystream K (flip_blob_bit plain (i - 24) j)"
    using assms(2,3) by (simp add: xor_keystream_flip_blob_bit)
  finally show ?thesis
    by (simp add: xor_keystream_involution)
qed

lemma group_inject:
  "group_laws L \<Longrightarrow> a < CURVE_n L \<Longrightarrow> b < CURVE_n L \<Longrightarrow>
   point_mul L a (BASE L) = point_mul L b (BASE L) \<Longrightarrow> a = b"
  unfolding group_laws_def by blast

lemma group_mul_mul:
  "group_laws L \<Longrightarrow> point_mul L a (point_mul L b (BASE L)) = point_mul L (a * b) (BASE L)"
  unfolding group_laws_def by blast

lemma group_add:
  "group_laws L \<Longrightarrow>
   point_add L (point_mul L a (BASE L)) (point_mul L b (BASE L)) = point_mul L (a + b) (BASE L)"
  unfolding group_laws_def by blast

lemma group_mod:
  "group_laws L \<Longrightarrow> point_mul L (k mod CURVE_n L) (BASE L) = point_mul L k (BASE L)"
  unfolding group_laws_def by blast

lemma group_order: "group_laws L \<Longrightarrow> 1 < CURVE_n L \<and> CURVE_n L \<le> 2 ^ 256"
  unfolding group_laws_def by blast

lemma encoding_decode:
  "encoding_laws L \<Longrightarrow> 0 < k \<Longrightarrow> k < CURVE_n L \<Longrightarrow>
   fromHex L (toRawBytes L (point_mul L k (BASE L)) True) = Some (point_mul L k (BASE L))"
  unfolding encoding_laws_def by blast

lemma encoding_length:
  "encoding_laws L \<Longrightarrow>
   length (toRawBytes L P True) = 33 \<and> length (toRawBytes L P False) = 65"
  unfolding encoding_laws_def by blast

text \<open>Two valid private keys with the same public key are the same key.\<close>

lemma public_key_inject:
  assumes g: "group_laws L" and c: "encoding_laws L"
    and a: "0 < a" "a < CURVE_n L" and b: "0 < b" "b < CURVE_n L"
    and eq: "toRawBytes L (point_mul L a (BASE L)) True = toRawBytes L (point_mul L b (BASE L)) True"
  shows "a = b"
proof -
  have "Some (point_mul L a (BASE L)) = fromHex L (toRawBytes L (point_mul L a (BASE L)) True)"
    by (simp only: encoding_decode [OF c a])
  also have "\<dots> = fromHex L (toRawBytes L (point_mul L b (BASE L)) True)"
    by (simp only: eq)
  also have "\<dots> = Some (point_mul L b (BASE L))"
    by (simp only: encoding_decode [OF c b])
  finally have "point_mul L a (BASE L) = point_mul L b (BASE L)"
    by simp
  then show ?thesis
    by (rule group_inject [OF g a(2) b(2)])
qed




text \<open>
  C5, as the code has it. For valid ephemeral and view key pairs,
  \<^verbatim>\<open>decryptEphemeralPrivKey\<close> gives back the 32 bytes of the ephemeral private key from
  the blob \<^verbatim>\<open>encryptEphemeralPrivKey\<close> wrote. The decoded blob is 89 bytes long, and
  with any one bit flipped at an offset from 24 on, decryption fails: with the
  public-key mismatch (the specification's DecryptionFailure) in every case but one.
  When the bit lies in the private-key part (offsets 24 to 55) and the 32 bytes read
  back spell 0 or a number not below the group order, \<^verbatim>\<open>secp.getPublicKey\<close> raises its
  own invalid-private-key error before the comparison is reached.
\<close>

theorem ephemeral_blob_integrity:
  assumes g: "group_laws L" and c: "encoding_laws L" and h: "hash_laws L"
    and eph: "valid_keypair L ephPriv32 ephPub"
    and view: "valid_keypair L metaViewPriv metaViewPub"
    and priv: "to32u8 ephPriv32 = Inr priv"
  shows "\<exists>blob payload.
           encryptEphemeralPrivKey L ephPriv32 metaViewPub = Inr blob \<and>
           decryptEphemeralPrivKey L blob metaViewPriv ephPub = Inr priv \<and>
           bs58_decode blob = Some payload \<and> length payload = 89 \<and>
           (\<forall>i j. 24 \<le> i \<and> i < 89 \<and> j < 8 \<longrightarrow>
              decryptEphemeralPrivKey L (bs58_encode (flip_blob_bit payload i j)) metaViewPriv ephPub =
                (if i < 56 \<and> \<not> (0 < be_nat (flip_blob_bit priv (i - 24) j) \<and>
                                 be_nat (flip_blob_bit priv (i - 24) j) < CURVE_n L)
                 then Inl InvalidPrivateKey else Inl EphemeralKeyMismatch))"
proof -
  let ?G = "BASE L"
  let ?E = "toRawBytes L (point_mul L (be_nat priv) ?G) True"
  from eph priv have a: "length priv = 32" "0 < be_nat priv" "be_nat priv < CURVE_n L"
    and E: "to32u8 ephPub = Inr ?E"
    by (auto simp: valid_keypair_iff)
  from view obtain vp where vp: "to32u8 metaViewPriv = Inr vp"
    and b: "length vp = 32" "0 < be_nat vp" "be_nat vp < CURVE_n L"
    and V: "to32u8 metaViewPub = Inr (toRawBytes L (point_mul L (be_nat vp) ?G) True)"
    by (auto simp: valid_keypair_iff)
  define shared where "shared = toRawBytes L (point_mul L (be_nat priv * be_nat vp) ?G) True"
  define K where "K = sha256 L (drop 1 shared)"
  define nonce where "nonce = randomBytes L 24"
  define payload where "payload = nonce @ xor_keystream K (priv @ ?E)"
  have s1: "getSharedSecret L priv (toRawBytes L (point_mul L (be_nat vp) ?G) True) = Inr shared"
    unfolding shared_def by (rule getSharedSecret_public [OF g c a b(2,3)])
  have s2: "getSharedSecret L vp ?E = Inr shared"
    unfolding shared_def using getSharedSecret_public [OF g c b a(2,3)]
    by (simp add: mult.commute)
  have pub: "getPublicKey L priv = Inr ?E"
    using a by (simp add: getPublicKey_Inr)
  have lenE: "length ?E = 33"
    using encoding_length [OF c] by simp
  have nonce: "length nonce = 24"
    using h by (simp add: nonce_def hash_laws_def)
  have len: "length payload = 89"
    by (simp add: payload_def nonce a(1) lenE)
  have enc: "encryptEphemeralPrivKey L ephPriv32 metaViewPub = Inr (bs58_encode payload)"
    using priv V s1 pub
    by (simp add: encryptEphemeralPrivKey_def payload_def K_def nonce_def)
  have plain: "xor_keystream K (drop 24 payload) = priv @ ?E"
    by (simp add: payload_def nonce xor_keystream_involution)
  have dec: "decryptEphemeralPrivKey L (bs58_encode payload) metaViewPriv ephPub = Inr priv"
    using decryptEphemeralPrivKey_payload [OF vp E s2 plain [unfolded K_def, symmetric]]
    by (simp add: a(1) pub every_equal_same_length)
  have flipped: "decryptEphemeralPrivKey L (bs58_encode (flip_blob_bit payload i j)) metaViewPriv ephPub =
        (if i < 56 \<and> \<not> (0 < be_nat (flip_blob_bit priv (i - 24) j) \<and>
                         be_nat (flip_blob_bit priv (i - 24) j) < CURVE_n L)
         then Inl InvalidPrivateKey else Inl EphemeralKeyMismatch)"
    if i: "24 \<le> i" "i < 89" and j: "j < 8" for i j
  proof -
    have fl: "xor_keystream K (drop 24 (flip_blob_bit payload i j)) = flip_blob_bit (priv @ ?E) (i - 24) j"
      unfolding payload_def
      by (rule decrypt_flipped_payload [OF nonce i(1)]) (simp add: a(1) lenE i(2))
    note d = decryptEphemeralPrivKey_payload [OF vp E s2 fl [unfolded K_def, symmetric]]
    show ?thesis
    proof (cases "i < 56")
      case True
      let ?p = "flip_blob_bit priv (i - 24) j"
      from True i(1) have lt: "i - 24 < length priv" by (simp add: a(1))
      have split: "flip_blob_bit (priv @ ?E) (i - 24) j = ?p @ ?E"
        by (rule flip_blob_bit_append_left [OF lt])
      have tk: "take 32 (?p @ ?E) = ?p" and dr: "drop 32 (?p @ ?E) = ?E"
        by (simp_all add: a(1))
      from d have d': "decryptEphemeralPrivKey L (bs58_encode (flip_blob_bit payload i j))
            metaViewPriv ephPub =
          (case getPublicKey L ?p of
             Inl e \<Rightarrow> Inl e
           | Inr computedPub \<Rightarrow>
               if every_equal computedPub ?E then Inr ?p else Inl EphemeralKeyMismatch)"
        by (simp only: split tk dr)
      show ?thesis
      proof (cases "0 < be_nat ?p \<and> be_nat ?p < CURVE_n L")
        case False
        then have "getPublicKey L ?p = Inl InvalidPrivateKey"
          by (simp add: getPublicKey_Inl)
        with d' True False show ?thesis
          by simp
      next
        case valid: True
        then have pk: "getPublicKey L ?p = Inr (toRawBytes L (point_mul L (be_nat ?p) ?G) True)"
          by (simp add: getPublicKey_Inr a(1))
        have "?p \<noteq> priv" by (rule flip_blob_bit_neq [OF lt j])
        then have "be_nat ?p \<noteq> be_nat priv"
          using be_nat_inject [of ?p priv] by auto
        then have "toRawBytes L (point_mul L (be_nat ?p) ?G) True \<noteq> ?E"
          using public_key_inject [OF g c _ _ a(2,3), of "be_nat ?p"] valid by auto
        moreover have "length (toRawBytes L (point_mul L (be_nat ?p) ?G) True) = length ?E"
          using encoding_length [OF c] by simp
        ultimately have "\<not> every_equal (toRawBytes L (point_mul L (be_nat ?p) ?G) True) ?E"
          by (simp add: every_equal_same_length)
        with d' True valid pk show ?thesis
          by simp
      qed
    next
      case False
      let ?r = "flip_blob_bit ?E (i - 24 - 32) j"
      from False have ge: "length priv \<le> i - 24" by (simp add: a(1))
      have split: "flip_blob_bit (priv @ ?E) (i - 24) j = priv @ ?r"
        using flip_blob_bit_append_right [OF ge, of ?E j] by (simp add: a(1))
      have "i - 24 - 32 < length ?E" using i(2) False by (simp add: lenE)
      then have "?r \<noteq> ?E" by (rule flip_blob_bit_neq [OF _ j])
      then have "\<not> every_equal ?E ?r"
        by (simp add: every_equal_same_length)
      moreover have tk: "take 32 (priv @ ?r) = priv" and dr: "drop 32 (priv @ ?r) = ?r"
        by (simp_all add: a(1))
      from d have "decryptEphemeralPrivKey L (bs58_encode (flip_blob_bit payload i j))
            metaViewPriv ephPub =
          (case getPublicKey L priv of
             Inl e \<Rightarrow> Inl e
           | Inr computedPub \<Rightarrow>
               if every_equal computedPub ?r then Inr priv else Inl EphemeralKeyMismatch)"
        by (simp only: split tk dr)
      ultimately show ?thesis
        using False pub by simp
    qed
  qed
  from enc dec len flipped show ?thesis
    by (auto simp: bs58_roundtrip)
qed


theorem ephemeral_blob_integrity_witness:
  "\<exists>blob payload.
     encryptEphemeralPrivKey small_libs (U8 (replicate 31 0 @ [3]))
       (Str (js ''bTdjzaWCb6UY9AZqTMMbPSc3VzHeVR9By6ueiqrY2uVg'')) = Inr blob \<and>
     decryptEphemeralPrivKey small_libs blob (U8 (replicate 31 0 @ [7]))
       (U8 (2 # replicate 31 0 @ [3])) = Inr (replicate 31 0 @ [3]) \<and>
     bs58_decode blob = Some payload \<and> length payload = 89 \<and>
     (\<forall>i j. 24 \<le> i \<and> i < 89 \<and> j < 8 \<longrightarrow>
        decryptEphemeralPrivKey small_libs (bs58_encode (flip_blob_bit payload i j))
          (U8 (replicate 31 0 @ [7])) (U8 (2 # replicate 31 0 @ [3])) =
          (if i < 56 \<and> \<not> (0 < be_nat (flip_blob_bit (replicate 31 0 @ [3]) (i - 24) j) \<and>
                           be_nat (flip_blob_bit (replicate 31 0 @ [3]) (i - 24) j)
                             < CURVE_n small_libs)
           then Inl InvalidPrivateKey else Inl EphemeralKeyMismatch))"
proof -
  have e: "to32u8 (U8 (replicate 31 0 @ [3])) = Inr (replicate 31 0 @ [3])"
    by (simp add: to32u8_def)
  have eph: "valid_keypair small_libs (U8 (replicate 31 0 @ [3])) (U8 (2 # replicate 31 0 @ [3]))"
    using small_getPublicKey [of 3] by (simp add: valid_keypair_def to32u8_def)
  have view: "valid_keypair small_libs (U8 (replicate 31 0 @ [7]))
        (Str (js ''bTdjzaWCb6UY9AZqTMMbPSc3VzHeVR9By6ueiqrY2uVg''))"
    using small_getPublicKey [of 7] by (simp add: valid_keypair_def small_view_pub) (simp add: to32u8_def)
  show ?thesis
    by (rule ephemeral_blob_integrity
          [OF small_libs_group small_libs_encoding small_libs_hash eph view e])
qed

text \<open>
  C5 says that every flipped bit makes decryption fail with DecryptionFailure. For the
  valid ephemeral key 1, flipping the lowest bit of the byte at offset 55 turns the
  private key read back into 0, and the error is the library's invalid-private-key
  error, raised by \<^verbatim>\<open>secp.getPublicKey\<close>.
\<close>

theorem ephemeral_blob_flip_counterexample:
  "valid_keypair small_libs (U8 (replicate 31 0 @ [1])) (U8 (2 # replicate 31 0 @ [1])) \<and>
   valid_keypair small_libs (U8 (replicate 31 0 @ [7]))
     (Str (js ''bTdjzaWCb6UY9AZqTMMbPSc3VzHeVR9By6ueiqrY2uVg'')) \<and>
   (case encryptEphemeralPrivKey small_libs (U8 (replicate 31 0 @ [1]))
           (Str (js ''bTdjzaWCb6UY9AZqTMMbPSc3VzHeVR9By6ueiqrY2uVg'')) of
      Inl e \<Rightarrow> False
    | Inr blob \<Rightarrow>
        (case bs58_decode blob of
           None \<Rightarrow> False
         | Some payload \<Rightarrow>
             decryptEphemeralPrivKey small_libs (bs58_encode (flip_blob_bit payload 55 0))
               (U8 (replicate 31 0 @ [7])) (U8 (2 # replicate 31 0 @ [1])) =
             Inl InvalidPrivateKey))"
proof -
  let ?priv = "replicate 31 0 @ [1 :: u8]"
  let ?E = "2 # replicate 31 0 @ [1 :: u8]"
  let ?shared = "2 # replicate 31 0 @ [7 :: u8]"
  let ?K = "sha256 small_libs (drop 1 ?shared)"
  let ?nonce = "randomBytes small_libs 24"
  let ?payload = "?nonce @ xor_keystream ?K (?priv @ ?E)"
  have e: "to32u8 (U8 ?priv) = Inr ?priv" and E: "to32u8 (U8 ?E) = Inr ?E"
    and v: "to32u8 (U8 (replicate 31 0 @ [7])) = Inr (replicate 31 0 @ [7])"
    by (simp_all add: to32u8_def)
  have pub: "getPublicKey small_libs ?priv = Inr ?E"
    using small_getPublicKey [of 1] by simp
  have eph: "valid_keypair small_libs (U8 ?priv) (U8 ?E)"
    using pub by (simp add: valid_keypair_def to32u8_def)
  have view: "valid_keypair small_libs (U8 (replicate 31 0 @ [7]))
        (Str (js ''bTdjzaWCb6UY9AZqTMMbPSc3VzHeVR9By6ueiqrY2uVg''))"
    using small_getPublicKey [of 7] by (simp add: valid_keypair_def small_view_pub) (simp add: to32u8_def)
  have s1: "getSharedSecret small_libs ?priv (2 # replicate 31 0 @ [7]) = Inr ?shared"
    using small_getSharedSecret [of 1 7] by simp
  have s2: "getSharedSecret small_libs (replicate 31 0 @ [7]) ?E = Inr ?shared"
    using small_getSharedSecret [of 7 1] by simp
  have enc: "encryptEphemeralPrivKey small_libs (U8 ?priv)
        (Str (js ''bTdjzaWCb6UY9AZqTMMbPSc3VzHeVR9By6ueiqrY2uVg'')) = Inr (bs58_encode ?payload)"
    using e small_view_pub s1 pub by (simp add: encryptEphemeralPrivKey_def)
  have nonce: "length ?nonce = 24"
    by (simp add: small_libs_def)
  have "xor_keystream ?K (drop 24 (flip_blob_bit ?payload 55 0)) =
        flip_blob_bit (?priv @ ?E) (55 - 24) 0"
    by (rule decrypt_flipped_payload [OF nonce]) simp_all
  also have "\<dots> = (replicate 31 0 @ [0]) @ ?E"
    by (simp add: flip_blob_bit_def list_update_append nth_append)
  finally have fl: "(replicate 31 0 @ [0]) @ ?E =
        xor_keystream ?K (drop 24 (flip_blob_bit ?payload 55 0))"
    by simp
  have zero: "getPublicKey small_libs (replicate 31 0 @ [0]) = Inl InvalidPrivateKey"
    by (simp add: getPublicKey_Inl be_nat_small [of 0])
  have "decryptEphemeralPrivKey small_libs (bs58_encode (flip_blob_bit ?payload 55 0))
          (U8 (replicate 31 0 @ [7])) (U8 ?E) = Inl InvalidPrivateKey"
    using decryptEphemeralPrivKey_payload [OF v E s2 fl] zero by simp
  with eph view enc show ?thesis
    by (simp add: bs58_roundtrip)
qed

section \<open>Claims about the stealth derivation\<close>

lemma tweakScalar_Inr:
  "tweakScalar L priv pub = Inr t \<longleftrightarrow>
     (\<exists>shared. getSharedSecret L priv pub = Inr shared \<and> sha256 L (drop 1 shared) \<noteq> [] \<and>
        t = be_nat (sha256 L (drop 1 shared)) mod CURVE_n L)"
  by (cases "getSharedSecret L priv pub") (auto simp: tweakScalar_def bigint_of_bytes_def Let_def)

text \<open>The two derivations, for valid keys with a tweak and a stealth scalar that are not
  zero: both compute the multiple of the generator by the stealth scalar.\<close>

lemma stealth_derivations:
  assumes g: "group_laws L" and c: "encoding_laws L"
    and spend: "valid_keypair L metaSpendPriv metaSpendPub"
    and view: "valid_keypair L metaViewPriv metaViewPub"
    and eph: "valid_keypair L ephPriv32 ephPub"
    and e: "to32u8 ephPriv32 = Inr e" and V: "to32u8 metaViewPub = Inr V"
    and s: "to32u8 metaSpendPriv = Inr s"
    and t: "tweakScalar L e V = Inr t"
    and nz: "t \<noteq> 0" "(be_nat s + t) mod CURVE_n L \<noteq> 0"
    and k: "k = (be_nat s + t) mod CURVE_n L"
    and X: "X = toRawBytes L (point_mul L k (BASE L)) True"
    and A: "A = ''0x'' @ hex_encode (sha3_256 L
              ([0x01] @ [0x41] @ toRawBytes L (point_mul L k (BASE L)) False @ [0x02]))"
  shows "deriveStealthPub L metaSpendPub metaViewPub ephPriv32 =
           Inr \<lparr> stealthPubKeyB58 = bs58_encode X, stealthAptosAddress = A,
                 stealthPubKeyBytes = X \<rparr>"
    and "deriveStealthKeypair L metaSpendPriv metaViewPriv ephPub =
           Inr \<lparr> stealthAddress = sdkAccountAddress L (bytes32_of_nat k),
                 privateKey = bytes32_of_nat k,
                 publicKeyBase58 = bs58_encode X \<rparr>"
    and "getPublicKey L (bytes32_of_nat k) = Inr X"
    and "length X = 33"
    and "0 < k \<and> k < CURVE_n L"
proof -
  let ?G = "BASE L"
  let ?n = "CURVE_n L"
  from eph e have ke: "length e = 32" "0 < be_nat e" "be_nat e < ?n"
    and E: "to32u8 ephPub = Inr (toRawBytes L (point_mul L (be_nat e) ?G) True)"
    by (auto simp: valid_keypair_iff)
  from view V obtain v where v: "to32u8 metaViewPriv = Inr v"
    and kv: "length v = 32" "0 < be_nat v" "be_nat v < ?n"
    and V': "V = toRawBytes L (point_mul L (be_nat v) ?G) True"
    by (auto simp: valid_keypair_iff)
  from spend s have ks: "length s = 32" "0 < be_nat s" "be_nat s < ?n"
    and S: "to32u8 metaSpendPub = Inr (toRawBytes L (point_mul L (be_nat s) ?G) True)"
    by (auto simp: valid_keypair_iff)
  define shared where "shared = toRawBytes L (point_mul L (be_nat e * be_nat v) ?G) True"
  have s1: "getSharedSecret L e V = Inr shared"
    unfolding shared_def V' by (rule getSharedSecret_public [OF g c ke kv(2,3)])
  have s2: "getSharedSecret L v (toRawBytes L (point_mul L (be_nat e) ?G) True) = Inr shared"
    unfolding shared_def using getSharedSecret_public [OF g c kv ke(2,3)]
    by (simp add: mult.commute)
  from t s1 have tw: "bigint_of_bytes (sha256 L (drop 1 shared)) = Inr (be_nat (sha256 L (drop 1 shared)))"
    and t_eq: "be_nat (sha256 L (drop 1 shared)) mod ?n = t"
    by (auto simp: tweakScalar_Inr bigint_of_bytes_def)
  have n: "1 < ?n" "?n \<le> 2 ^ 256" using group_order [OF g] by simp_all
  have t_lt: "t < ?n" using t_eq n by (metis mod_less_divisor less_trans zero_less_one)
  have k_lt: "0 < k" "k < ?n" using nz(2) n by (simp_all add: k)
  have mul: "multiply L ?G t = Inr (point_mul L t ?G)"
    using nz(1) t_lt by (simp add: multiply_def)
  have spend_pt: "fromHex L (toRawBytes L (point_mul L (be_nat s) ?G) True) =
        Some (point_mul L (be_nat s) ?G)"
    by (rule encoding_decode [OF c ks(2,3)])
  have sum: "point_add L (point_mul L (be_nat s) ?G) (point_mul L t ?G) = point_mul L k ?G"
    by (simp only: group_add [OF g] k group_mod [OF g])
  have dec: "fromHex L X = Some (point_mul L k ?G)"
    unfolding X by (rule encoding_decode [OF c k_lt])
  have addr: "secp256k1PointToAptosAddress L X = Inr A"
    by (simp add: secp256k1PointToAptosAddress_def dec A)
  show "deriveStealthPub L metaSpendPub metaViewPub ephPriv32 =
           Inr \<lparr> stealthPubKeyB58 = bs58_encode X, stealthAptosAddress = A,
                 stealthPubKeyBytes = X \<rparr>"
    using e V s1 tw t_eq mul S spend_pt sum addr
    by (simp add: deriveStealthPub_def X [symmetric])
  have s_int: "bigint_of_bytes s = Inr (be_nat s)"
    using ks(1) by (auto simp: bigint_of_bytes_def)
  have k': "(be_nat s mod ?n + t) mod ?n = k"
    using ks(3) by (simp add: k)
  have len: "length (bytes32_of_nat k) = 32" by simp
  have val: "be_nat (bytes32_of_nat k) = k"
    using k_lt(2) n(2) by (intro be_nat_bytes32_of_nat) simp
  show pub: "getPublicKey L (bytes32_of_nat k) = Inr X"
    using k_lt by (simp add: getPublicKey_Inr val X)
  show "deriveStealthKeypair L metaSpendPriv metaViewPriv ephPub =
           Inr \<lparr> stealthAddress = sdkAccountAddress L (bytes32_of_nat k),
                 privateKey = bytes32_of_nat k,
                 publicKeyBase58 = bs58_encode X \<rparr>"
    using v E s2 tw t_eq s s_int k' pub
    by (simp add: deriveStealthKeypair_def Let_def)
  show "0 < k \<and> k < CURVE_n L"
    using k_lt by simp
  show "length X = 33"
    unfolding X using encoding_length [OF c] by simp
qed


text \<open>When the stealth scalar is zero the receiver's derivation is refused, whatever the
  library: the 32 zero bytes are not a private key.\<close>

lemma deriveStealthKeypair_zero_scalar:
  assumes g: "group_laws L" and c: "encoding_laws L"
    and spend: "valid_keypair L metaSpendPriv metaSpendPub"
    and view: "valid_keypair L metaViewPriv metaViewPub"
    and eph: "valid_keypair L ephPriv32 ephPub"
    and e: "to32u8 ephPriv32 = Inr e" and V: "to32u8 metaViewPub = Inr V"
    and s: "to32u8 metaSpendPriv = Inr s"
    and t: "tweakScalar L e V = Inr t"
    and z: "(be_nat s + t) mod CURVE_n L = 0"
  shows "deriveStealthKeypair L metaSpendPriv metaViewPriv ephPub = Inl InvalidPrivateKey"
proof -
  let ?G = "BASE L"
  let ?n = "CURVE_n L"
  from eph e have ke: "length e = 32" "0 < be_nat e" "be_nat e < ?n"
    and E: "to32u8 ephPub = Inr (toRawBytes L (point_mul L (be_nat e) ?G) True)"
    by (auto simp: valid_keypair_iff)
  from view V obtain v where v: "to32u8 metaViewPriv = Inr v"
    and kv: "length v = 32" "0 < be_nat v" "be_nat v < ?n"
    and V': "V = toRawBytes L (point_mul L (be_nat v) ?G) True"
    by (auto simp: valid_keypair_iff)
  from spend s have ks: "length s = 32" "be_nat s < ?n"
    by (auto simp: valid_keypair_iff)
  define shared where "shared = toRawBytes L (point_mul L (be_nat e * be_nat v) ?G) True"
  have s1: "getSharedSecret L e V = Inr shared"
    unfolding shared_def V' by (rule getSharedSecret_public [OF g c ke kv(2,3)])
  have s2: "getSharedSecret L v (toRawBytes L (point_mul L (be_nat e) ?G) True) = Inr shared"
    unfolding shared_def using getSharedSecret_public [OF g c kv ke(2,3)]
    by (simp add: mult.commute)
  from t s1 have tw: "bigint_of_bytes (sha256 L (drop 1 shared)) = Inr (be_nat (sha256 L (drop 1 shared)))"
    and t_eq: "be_nat (sha256 L (drop 1 shared)) mod ?n = t"
    by (auto simp: tweakScalar_Inr bigint_of_bytes_def)
  have s_int: "bigint_of_bytes s = Inr (be_nat s)"
    using ks(1) by (auto simp: bigint_of_bytes_def)
  have k': "(be_nat s mod ?n + t) mod ?n = 0"
    using ks(2) z by simp
  have "be_nat (bytes32_of_nat 0) = 0"
    by (rule be_nat_bytes32_of_nat) simp
  then have "getPublicKey L (bytes32_of_nat 0) = Inl InvalidPrivateKey"
    by (simp add: getPublicKey_Inl)
  then show ?thesis
    using v E s2 tw t_eq s s_int k'
    by (simp add: deriveStealthKeypair_def Let_def)
qed

text \<open>When the tweak is zero the payer's derivation is refused, whatever the library:
  \<^verbatim>\<open>Point.BASE.multiply\<close> takes no zero scalar. The receiver's derivation returns, and
  its stealth key is the spend key.\<close>

lemma stealth_zero_tweak:
  assumes g: "group_laws L" and c: "encoding_laws L"
    and spend: "valid_keypair L metaSpendPriv metaSpendPub"
    and view: "valid_keypair L metaViewPriv metaViewPub"
    and eph: "valid_keypair L ephPriv32 ephPub"
    and e: "to32u8 ephPriv32 = Inr e" and V: "to32u8 metaViewPub = Inr V"
    and s: "to32u8 metaSpendPriv = Inr s"
    and t: "tweakScalar L e V = Inr 0"
  shows "deriveStealthPub L metaSpendPub metaViewPub ephPriv32 = Inl InvalidScalar"
    and "\<exists>kp. deriveStealthKeypair L metaSpendPriv metaViewPriv ephPub = Inr kp \<and>
           privateKey kp = bytes32_of_nat (be_nat s)"
proof -
  let ?G = "BASE L"
  let ?n = "CURVE_n L"
  from eph e have ke: "length e = 32" "0 < be_nat e" "be_nat e < ?n"
    and E: "to32u8 ephPub = Inr (toRawBytes L (point_mul L (be_nat e) ?G) True)"
    by (auto simp: valid_keypair_iff)
  from view V obtain v where v: "to32u8 metaViewPriv = Inr v"
    and kv: "length v = 32" "0 < be_nat v" "be_nat v < ?n"
    and V': "V = toRawBytes L (point_mul L (be_nat v) ?G) True"
    by (auto simp: valid_keypair_iff)
  from spend s have ks: "length s = 32" "0 < be_nat s" "be_nat s < ?n"
    by (auto simp: valid_keypair_iff)
  define shared where "shared = toRawBytes L (point_mul L (be_nat e * be_nat v) ?G) True"
  have s1: "getSharedSecret L e V = Inr shared"
    unfolding shared_def V' by (rule getSharedSecret_public [OF g c ke kv(2,3)])
  have s2: "getSharedSecret L v (toRawBytes L (point_mul L (be_nat e) ?G) True) = Inr shared"
    unfolding shared_def using getSharedSecret_public [OF g c kv ke(2,3)]
    by (simp add: mult.commute)
  from t s1 have tw: "bigint_of_bytes (sha256 L (drop 1 shared)) = Inr (be_nat (sha256 L (drop 1 shared)))"
    and t_eq: "be_nat (sha256 L (drop 1 shared)) mod ?n = 0"
    by (auto simp: tweakScalar_Inr bigint_of_bytes_def)
  have n: "1 < ?n" "?n \<le> 2 ^ 256" using group_order [OF g] by simp_all
  have mul: "multiply L ?G 0 = Inl InvalidScalar"
    by (simp add: multiply_def)
  show "deriveStealthPub L metaSpendPub metaViewPub ephPriv32 = Inl InvalidScalar"
    using e V s1 tw t_eq mul
    by (simp add: deriveStealthPub_def)
  have s_int: "bigint_of_bytes s = Inr (be_nat s)"
    using ks(1) by (auto simp: bigint_of_bytes_def)
  have k': "(be_nat s mod ?n + 0) mod ?n = be_nat s"
    using ks(3) by simp
  have val: "be_nat (bytes32_of_nat (be_nat s)) = be_nat s"
    using ks(3) n(2) by (intro be_nat_bytes32_of_nat) simp
  have pub: "getPublicKey L (bytes32_of_nat (be_nat s)) =
      Inr (toRawBytes L (point_mul L (be_nat s) ?G) True)"
    using ks by (simp add: getPublicKey_Inr val)
  show "\<exists>kp. deriveStealthKeypair L metaSpendPriv metaViewPriv ephPub = Inr kp \<and>
           privateKey kp = bytes32_of_nat (be_nat s)"
    using v E s2 tw t_eq s s_int k' pub
    by (simp add: deriveStealthKeypair_def Let_def)
qed

text \<open>
  C1, as the code has it. For valid spend, view and ephemeral key pairs whose tweak \<open>t\<close>
  and whose stealth scalar \<open>(s + t) mod n\<close> are both not zero, the payer's
  \<^verbatim>\<open>deriveStealthPub\<close> and the receiver's \<^verbatim>\<open>deriveStealthKeypair\<close> both return, with
  the same stealth public key (33 bytes, the same Base58 text on both sides) and the same
  address string. The receiver's address is the one the SDK gives the account of the
  stealth private key; it is assumed to be the SDK's single-key authentication key.
\<close>

theorem stealth_round_trip:
  assumes "group_laws L" and "encoding_laws L" and "sdk_parity L"
    and "valid_keypair L metaSpendPriv metaSpendPub"
    and "valid_keypair L metaViewPriv metaViewPub"
    and "valid_keypair L ephPriv32 ephPub"
    and "to32u8 ephPriv32 = Inr e" and "to32u8 metaViewPub = Inr V"
    and "to32u8 metaSpendPriv = Inr s"
    and "tweakScalar L e V = Inr t"
    and "t \<noteq> 0" and "(be_nat s + t) mod CURVE_n L \<noteq> 0"
  shows "\<exists>p kp.
           deriveStealthPub L metaSpendPub metaViewPub ephPriv32 = Inr p \<and>
           deriveStealthKeypair L metaSpendPriv metaViewPriv ephPub = Inr kp \<and>
           length (stealthPubKeyBytes p) = 33 \<and>
           stealthPubKeyB58 p = bs58_encode (stealthPubKeyBytes p) \<and>
           publicKeyBase58 kp = stealthPubKeyB58 p \<and>
           bs58_decode (publicKeyBase58 kp) = Some (stealthPubKeyBytes p) \<and>
           stealthAddress kp = stealthAptosAddress p"
proof -
  define k where "k = (be_nat s + t) mod CURVE_n L"
  define X where "X = toRawBytes L (point_mul L k (BASE L)) True"
  define A where "A = ''0x'' @ hex_encode (sha3_256 L
              ([0x01] @ [0x41] @ toRawBytes L (point_mul L k (BASE L)) False @ [0x02]))"
  note d = stealth_derivations [OF assms(1,2) assms(4-12) k_def X_def A_def]
  have "sdkAccountAddress L (bytes32_of_nat k) = A"
    using assms(3) d(5) unfolding sdk_parity_def A_def by blast
  with d(1,2,4) show ?thesis
    by (simp add: bs58_roundtrip)
qed

text \<open>
  C2, as the code has it. Under the same conditions (valid key pairs, tweak and stealth
  scalar not zero) the private key returned by \<^verbatim>\<open>deriveStealthKeypair\<close> is 32 bytes
  long and its public key, \<^verbatim>\<open>secp.getPublicKey(privateKey, true)\<close>, is byte for byte the
  stealth public key returned by \<^verbatim>\<open>deriveStealthPub\<close>.
\<close>

theorem stealth_sign_consistency:
  assumes "group_laws L" and "encoding_laws L"
    and "valid_keypair L metaSpendPriv metaSpendPub"
    and "valid_keypair L metaViewPriv metaViewPub"
    and "valid_keypair L ephPriv32 ephPub"
    and "to32u8 ephPriv32 = Inr e" and "to32u8 metaViewPub = Inr V"
    and "to32u8 metaSpendPriv = Inr s"
    and "tweakScalar L e V = Inr t"
    and "t \<noteq> 0" and "(be_nat s + t) mod CURVE_n L \<noteq> 0"
  shows "\<exists>p kp.
           deriveStealthPub L metaSpendPub metaViewPub ephPriv32 = Inr p \<and>
           deriveStealthKeypair L metaSpendPriv metaViewPriv ephPub = Inr kp \<and>
           length (privateKey kp) = 32 \<and>
           getPublicKey L (privateKey kp) = Inr (stealthPubKeyBytes p)"
proof -
  define k where "k = (be_nat s + t) mod CURVE_n L"
  define X where "X = toRawBytes L (point_mul L k (BASE L)) True"
  note d = stealth_derivations [OF assms k_def X_def refl]
  from d(1,2,3) show ?thesis
    by simp
qed


subsection \<open>The derivations on the small instance\<close>

lemma small_valid_keypair:
  assumes "0 < unat a" "unat a < 251"
  shows "valid_keypair small_libs (U8 (replicate 31 0 @ [a])) (U8 (2 # replicate 31 0 @ [a]))"
  using small_getPublicKey [OF assms] by (simp add: valid_keypair_def to32u8_def)

lemma small_valid_view:
  "valid_keypair small_libs (U8 (replicate 31 0 @ [7]))
     (Str (js ''bTdjzaWCb6UY9AZqTMMbPSc3VzHeVR9By6ueiqrY2uVg''))"
  using small_getPublicKey [of 7]
  by (simp add: valid_keypair_def small_view_pub) (simp add: to32u8_def)

lemma small_tweak_3_7:
  "tweakScalar small_libs (replicate 31 0 @ [3]) (2 # replicate 31 0 @ [7]) = Inr 99"
  by (simp add: tweakScalar_def small_shared_3_7 small_key_21 bigint_of_bytes_def be_nat_def
      nat_of_digits_def)
     (simp add: small_libs_def)

lemma small_shared_5_7:
  "getSharedSecret small_libs (replicate 31 0 @ [5]) (2 # replicate 31 0 @ [7]) =
     Inr (2 # replicate 31 0 @ [35])"
  using small_getSharedSecret [of 5 7] by simp

lemma small_key_35:
  "sha256 small_libs (replicate 31 0 @ [35]) =
     [36, 39, 42, 45, 48, 51, 54, 57, 60, 63, 66, 69, 72, 75, 78, 81,
      84, 87, 90, 93, 96, 99, 102, 105, 108, 111, 114, 117, 120, 123, 126, 129]"
  by (simp add: small_libs_def small_sha256_tail map_upt_32 del: upt_rec_numeral)

lemma small_tweak_5_7:
  "tweakScalar small_libs (replicate 31 0 @ [5]) (2 # replicate 31 0 @ [7]) = Inr 194"
  by (simp add: tweakScalar_def small_shared_5_7 small_key_35 bigint_of_bytes_def be_nat_def
      nat_of_digits_def)
     (simp add: small_libs_def)

text \<open>The view key 7, the ephemeral key 25; their shared point is 175 and the tweak is
  zero.\<close>

lemma small_shared_25_7:
  "getSharedSecret small_libs (replicate 31 0 @ [25]) (2 # replicate 31 0 @ [7]) =
     Inr (2 # replicate 31 0 @ [175])"
  using small_getSharedSecret [of 25 7] by simp

lemma small_key_175:
  "sha256 small_libs (replicate 31 0 @ [175]) =
     [176, 179, 182, 185, 188, 191, 194, 197, 200, 203, 206, 209, 212, 215, 218, 221,
      224, 227, 230, 233, 236, 239, 242, 245, 248, 251, 254, 1, 4, 7, 10, 13]"
  by (simp add: small_libs_def small_sha256_tail map_upt_32 del: upt_rec_numeral)

lemma small_tweak_25_7:
  "tweakScalar small_libs (replicate 31 0 @ [25]) (2 # replicate 31 0 @ [7]) = Inr 0"
  by (simp add: tweakScalar_def small_shared_25_7 small_key_175 bigint_of_bytes_def be_nat_def
      nat_of_digits_def)
     (simp add: small_libs_def)

theorem stealth_round_trip_witness:
  "\<exists>p kp.
     deriveStealthPub small_libs (U8 (2 # replicate 31 0 @ [11]))
       (Str (js ''bTdjzaWCb6UY9AZqTMMbPSc3VzHeVR9By6ueiqrY2uVg'')) (U8 (replicate 31 0 @ [3])) = Inr p \<and>
     deriveStealthKeypair small_libs (U8 (replicate 31 0 @ [11])) (U8 (replicate 31 0 @ [7]))
       (U8 (2 # replicate 31 0 @ [3])) = Inr kp \<and>
     length (stealthPubKeyBytes p) = 33 \<and>
     stealthPubKeyB58 p = bs58_encode (stealthPubKeyBytes p) \<and>
     publicKeyBase58 kp = stealthPubKeyB58 p \<and>
     bs58_decode (publicKeyBase58 kp) = Some (stealthPubKeyBytes p) \<and>
     stealthAddress kp = stealthAptosAddress p"
proof -
  have nz: "(99 :: nat) \<noteq> 0"
    and k: "(be_nat (replicate 31 0 @ [11]) + 99) mod CURVE_n small_libs \<noteq> 0"
    by (simp_all add: be_nat_small small_libs_def)
  show ?thesis
    by (rule stealth_round_trip
          [OF small_libs_group small_libs_encoding small_libs_sdk
              small_valid_keypair [of 11] small_valid_view small_valid_keypair [of 3]
              to32u8_U8 small_view_pub to32u8_U8 small_tweak_3_7 nz k])
       simp_all
qed

theorem stealth_sign_consistency_witness:
  "\<exists>p kp.
     deriveStealthPub small_libs (U8 (2 # replicate 31 0 @ [20]))
       (Str (js ''bTdjzaWCb6UY9AZqTMMbPSc3VzHeVR9By6ueiqrY2uVg'')) (U8 (replicate 31 0 @ [5])) = Inr p \<and>
     deriveStealthKeypair small_libs (U8 (replicate 31 0 @ [20])) (U8 (replicate 31 0 @ [7]))
       (U8 (2 # replicate 31 0 @ [5])) = Inr kp \<and>
     length (privateKey kp) = 32 \<and>
     getPublicKey small_libs (privateKey kp) = Inr (stealthPubKeyBytes p)"
proof -
  have nz: "(194 :: nat) \<noteq> 0"
    and k: "(be_nat (replicate 31 0 @ [20]) + 194) mod CURVE_n small_libs \<noteq> 0"
    by (simp_all add: be_nat_small small_libs_def)
  show ?thesis
    by (rule stealth_sign_consistency
          [OF small_libs_group small_libs_encoding
              small_valid_keypair [of 20] small_valid_view small_valid_keypair [of 5]
              to32u8_U8 small_view_pub to32u8_U8 small_tweak_5_7 nz k])
       simp_all
qed

text \<open>
  C1 promises the same key and address for every valid key pairs. Two cases escape it,
  shown here on the small instance, where \<open>n = 251\<close>. When the spend key is \<open>n - t\<close>
  the stealth scalar is zero and the receiver's derivation stops at the all-zero private
  key; on this instance the payer's stops too, at the identity point, which is not a
  public key. The tweak of the ephemeral key 3 and the view key 7 is 99, and the spend
  key is 152. When the tweak itself is zero, as it is for the ephemeral key 25 and the
  view key 7, the payer's derivation is refused by \<^verbatim>\<open>Point.BASE.multiply\<close> while the
  receiver's returns: for the spend key 11 the payer gets no key and no address.
\<close>

theorem stealth_round_trip_counterexample:
  "valid_keypair small_libs (U8 (replicate 31 0 @ [152])) (U8 (2 # replicate 31 0 @ [152])) \<and>
   valid_keypair small_libs (U8 (replicate 31 0 @ [7]))
     (Str (js ''bTdjzaWCb6UY9AZqTMMbPSc3VzHeVR9By6ueiqrY2uVg'')) \<and>
   valid_keypair small_libs (U8 (replicate 31 0 @ [3])) (U8 (2 # replicate 31 0 @ [3])) \<and>
   deriveStealthPub small_libs (U8 (2 # replicate 31 0 @ [152]))
     (Str (js ''bTdjzaWCb6UY9AZqTMMbPSc3VzHeVR9By6ueiqrY2uVg'')) (U8 (replicate 31 0 @ [3])) =
     Inl InvalidPublicKey \<and>
   deriveStealthKeypair small_libs (U8 (replicate 31 0 @ [152])) (U8 (replicate 31 0 @ [7]))
     (U8 (2 # replicate 31 0 @ [3])) = Inl InvalidPrivateKey \<and>
   valid_keypair small_libs (U8 (replicate 31 0 @ [11])) (U8 (2 # replicate 31 0 @ [11])) \<and>
   valid_keypair small_libs (U8 (replicate 31 0 @ [25])) (U8 (2 # replicate 31 0 @ [25])) \<and>
   deriveStealthPub small_libs (U8 (2 # replicate 31 0 @ [11]))
     (Str (js ''bTdjzaWCb6UY9AZqTMMbPSc3VzHeVR9By6ueiqrY2uVg'')) (U8 (replicate 31 0 @ [25])) =
     Inl InvalidScalar \<and>
   (\<exists>kp. deriveStealthKeypair small_libs (U8 (replicate 31 0 @ [11]))
      (U8 (replicate 31 0 @ [7])) (U8 (2 # replicate 31 0 @ [25])) = Inr kp)"
proof -
  have z: "(be_nat (replicate 31 0 @ [152]) + 99) mod CURVE_n small_libs = 0"
    by (simp add: be_nat_small small_libs_def)
  have kp: "deriveStealthKeypair small_libs (U8 (replicate 31 0 @ [152]))
      (U8 (replicate 31 0 @ [7])) (U8 (2 # replicate 31 0 @ [3])) = Inl InvalidPrivateKey"
    by (rule deriveStealthKeypair_zero_scalar
          [OF small_libs_group small_libs_encoding
              small_valid_keypair [of 152] small_valid_view small_valid_keypair [of 3]
              to32u8_U8 small_view_pub to32u8_U8 small_tweak_3_7 z])
       simp_all
  have pub: "deriveStealthPub small_libs (U8 (2 # replicate 31 0 @ [152]))
      (Str (js ''bTdjzaWCb6UY9AZqTMMbPSc3VzHeVR9By6ueiqrY2uVg'')) (U8 (replicate 31 0 @ [3])) =
      Inl InvalidPublicKey"
    by (simp add: deriveStealthPub_def to32u8_U8 small_view_pub small_shared_3_7 small_key_21
        bigint_of_bytes_def be_nat_def nat_of_digits_def Let_def)
       (simp add: small_libs_def multiply_def small_fromHex_def small_toRawBytes_def
        secp256k1PointToAptosAddress_def nth_append)
  note zt = stealth_zero_tweak
          [OF small_libs_group small_libs_encoding
              small_valid_keypair [of 11] small_valid_view small_valid_keypair [of 25]
              to32u8_U8 small_view_pub to32u8_U8 small_tweak_25_7]
  have pub0: "deriveStealthPub small_libs (U8 (2 # replicate 31 0 @ [11]))
     (Str (js ''bTdjzaWCb6UY9AZqTMMbPSc3VzHeVR9By6ueiqrY2uVg'')) (U8 (replicate 31 0 @ [25])) =
     Inl InvalidScalar"
    by (rule zt(1)) simp_all
  have kp0: "\<exists>kp. deriveStealthKeypair small_libs (U8 (replicate 31 0 @ [11]))
      (U8 (replicate 31 0 @ [7])) (U8 (2 # replicate 31 0 @ [25])) = Inr kp \<and>
      privateKey kp = bytes32_of_nat (be_nat (replicate 31 0 @ [11]))"
    by (rule zt(2)) simp_all
  then have kp1: "\<exists>kp. deriveStealthKeypair small_libs (U8 (replicate 31 0 @ [11]))
      (U8 (replicate 31 0 @ [7])) (U8 (2 # replicate 31 0 @ [25])) = Inr kp"
    by blast
  have keys: "valid_keypair small_libs (U8 (replicate 31 0 @ [152]))
        (U8 (2 # replicate 31 0 @ [152]))"
      "valid_keypair small_libs (U8 (replicate 31 0 @ [3])) (U8 (2 # replicate 31 0 @ [3]))"
      "valid_keypair small_libs (U8 (replicate 31 0 @ [11])) (U8 (2 # replicate 31 0 @ [11]))"
      "valid_keypair small_libs (U8 (replicate 31 0 @ [25])) (U8 (2 # replicate 31 0 @ [25]))"
    by (rule small_valid_keypair; simp)+
  show ?thesis
    using kp pub pub0 kp1 keys small_valid_view
    by (simp only: simp_thms)
qed

text \<open>
  C2 speaks of the private key returned for every valid keys. With the ephemeral key 5 and
  the view key 7 the tweak is 194, and for the valid spend key 57 the stealth scalar is
  zero: \<^verbatim>\<open>deriveStealthKeypair\<close> raises and returns no private key.
\<close>

theorem stealth_sign_consistency_counterexample:
  "valid_keypair small_libs (U8 (replicate 31 0 @ [57])) (U8 (2 # replicate 31 0 @ [57])) \<and>
   valid_keypair small_libs (U8 (replicate 31 0 @ [7]))
     (Str (js ''bTdjzaWCb6UY9AZqTMMbPSc3VzHeVR9By6ueiqrY2uVg'')) \<and>
   valid_keypair small_libs (U8 (replicate 31 0 @ [5])) (U8 (2 # replicate 31 0 @ [5])) \<and>
   deriveStealthKeypair small_libs (U8 (replicate 31 0 @ [57])) (U8 (replicate 31 0 @ [7]))
     (U8 (2 # replicate 31 0 @ [5])) = Inl InvalidPrivateKey"
proof -
  have z: "(be_nat (replicate 31 0 @ [57]) + 194) mod CURVE_n small_libs = 0"
    by (simp add: be_nat_small small_libs_def)
  have kp: "deriveStealthKeypair small_libs (U8 (replicate 31 0 @ [57]))
      (U8 (replicate 31 0 @ [7])) (U8 (2 # replicate 31 0 @ [5])) = Inl InvalidPrivateKey"
    by (rule deriveStealthKeypair_zero_scalar
          [OF small_libs_group small_libs_encoding
              small_valid_keypair [of 57] small_valid_view small_valid_keypair [of 5]
              to32u8_U8 small_view_pub to32u8_U8 small_tweak_5_7 z])
       simp_all
  show ?thesis
    using kp small_valid_keypair [of 57] small_valid_view small_valid_keypair [of 5]
    by simp
qed

section \<open>The round trip of a note\<close>

text \<open>For valid key pairs \<^verbatim>\<open>decryptNote\<close> undoes the XOR of \<^verbatim>\<open>encryptNote\<close>: what it
  returns is the plaintext's UTF-8 bytes, decoded.\<close>

lemma note_round_trip_codec:
  assumes g: "group_laws L" and c: "encoding_laws L" and h: "hash_laws L"
    and eph: "valid_keypair L ephPriv32 ephPub"
    and view: "valid_keypair L metaViewPriv metaViewPub"
  shows "\<exists>blob. encryptNote L plaintext ephPriv32 metaViewPub = Inr blob \<and>
           decryptNote L blob metaViewPriv ephPub =
             Inr (TextDecoder_decode (TextEncoder_encode plaintext))"
proof -
  let ?G = "BASE L"
  from eph obtain e where e: "to32u8 ephPriv32 = Inr e"
    and ke: "length e = 32" "0 < be_nat e" "be_nat e < CURVE_n L"
    and E: "to32u8 ephPub = Inr (toRawBytes L (point_mul L (be_nat e) ?G) True)"
    by (auto simp: valid_keypair_iff)
  from view obtain v where v: "to32u8 metaViewPriv = Inr v"
    and kv: "length v = 32" "0 < be_nat v" "be_nat v < CURVE_n L"
    and V: "to32u8 metaViewPub = Inr (toRawBytes L (point_mul L (be_nat v) ?G) True)"
    by (auto simp: valid_keypair_iff)
  define shared where "shared = toRawBytes L (point_mul L (be_nat e * be_nat v) ?G) True"
  have s1: "getSharedSecret L e (toRawBytes L (point_mul L (be_nat v) ?G) True) = Inr shared"
    unfolding shared_def by (rule getSharedSecret_public [OF g c ke kv(2,3)])
  have s2: "getSharedSecret L v (toRawBytes L (point_mul L (be_nat e) ?G) True) = Inr shared"
    unfolding shared_def using getSharedSecret_public [OF g c kv ke(2,3)]
    by (simp add: mult.commute)
  have nonce: "length (randomBytes L 24) = 24"
    using h by (simp add: hash_laws_def)
  have "encryptNote L plaintext ephPriv32 metaViewPub =
        Inr (randomBytes L 24 @
             xor_keystream (sha256 L (drop 1 shared)) (TextEncoder_encode plaintext))"
    using e V s1 by (simp add: encryptNote_def)
  moreover have "decryptNote L
        (randomBytes L 24 @
         xor_keystream (sha256 L (drop 1 shared)) (TextEncoder_encode plaintext))
        metaViewPriv ephPub = Inr (TextDecoder_decode (TextEncoder_encode plaintext))"
    using v E s2 nonce by (simp add: decryptNote_def xor_keystream_involution)
  ultimately show ?thesis by simp
qed

text \<open>
  C4 says that \<^verbatim>\<open>decryptNote\<close> returns exactly the message \<^verbatim>\<open>encryptNote\<close> was given.
  The message of the three code units U+FEFF, \<^verbatim>\<open>H\<close>, \<^verbatim>\<open>i\<close> is valid text; its UTF-8
  bytes \<open>EF BB BF 48 69\<close> are encrypted and recovered, but \<^verbatim>\<open>new TextDecoder().decode\<close>
  drops the byte order mark at their start, and \<^verbatim>\<open>decryptNote\<close> returns \<^verbatim>\<open>Hi\<close>.
\<close>

theorem note_round_trip_loses_bom:
  "valid_keypair small_libs (U8 (replicate 31 0 @ [3])) (U8 (2 # replicate 31 0 @ [3])) \<and>
   valid_keypair small_libs (U8 (replicate 31 0 @ [7]))
     (Str (js ''bTdjzaWCb6UY9AZqTMMbPSc3VzHeVR9By6ueiqrY2uVg'')) \<and>
   encryptNote small_libs [0xFEFF, 0x48, 0x69] (U8 (replicate 31 0 @ [3]))
     (Str (js ''bTdjzaWCb6UY9AZqTMMbPSc3VzHeVR9By6ueiqrY2uVg'')) =
     Inr (replicate 24 0x5A @ [0xF9, 0xA2, 0xA3, 0x57, 0x4B]) \<and>
   decryptNote small_libs (replicate 24 0x5A @ [0xF9, 0xA2, 0xA3, 0x57, 0x4B])
     (U8 (replicate 31 0 @ [7])) (U8 (2 # replicate 31 0 @ [3])) = Inr [0x48, 0x69]"
proof -
  have enc8: "TextEncoder_encode [0xFEFF, 0x48, 0x69] = [0xEF, 0xBB, 0xBF, 0x48, 0x69]"
    by (simp add: TextEncoder_encode_def utf8_of_code_point_def is_high_surrogate_def
        is_low_surrogate_def)
  have dec8: "TextDecoder_decode [0xEF, 0xBB, 0xBF, 0x48, 0x69] = [0x48, 0x69]"
    by (simp add: TextDecoder_decode_def strip_bom_def utf8_decoder.simps
        utf16_of_code_point_def)
  have enc: "encryptNote small_libs [0xFEFF, 0x48, 0x69] (U8 (replicate 31 0 @ [3]))
     (Str (js ''bTdjzaWCb6UY9AZqTMMbPSc3VzHeVR9By6ueiqrY2uVg'')) =
     Inr (replicate 24 0x5A @ [0xF9, 0xA2, 0xA3, 0x57, 0x4B])"
    by (simp add: encryptNote_def to32u8_U8 small_view_pub small_shared_3_7 small_key_21 enc8
        xor_keystream_def byte_at_def Let_def)
       (simp add: small_libs_def)
  have dec: "decryptNote small_libs (replicate 24 0x5A @ [0xF9, 0xA2, 0xA3, 0x57, 0x4B])
     (U8 (replicate 31 0 @ [7])) (U8 (2 # replicate 31 0 @ [3])) = Inr [0x48, 0x69]"
    by (simp add: decryptNote_def to32u8_U8 small_shared_7_3 small_key_21
        xor_keystream_def byte_at_def Let_def dec8)
  show ?thesis
    using enc dec small_valid_keypair [of 3] small_valid_view by simp
qed

section \<open>Notes that come back\<close>

text \<open>
  The decoder of the platform reads back what the encoder wrote of a Unicode scalar
  value, so the round trip of a note loses nothing but a leading byte order mark and
  the surrogates that have no partner.
\<close>

lemma decode_first:
  "utf8_decoder 0 0 0x80 0xBF (b # bs) =
     (if b \<le> 0x7F then b # utf8_decoder 0 0 0x80 0xBF bs
      else if 0xC2 \<le> b \<and> b \<le> 0xDF then utf8_decoder (b - 0xC0) 1 0x80 0xBF bs
      else if 0xE0 \<le> b \<and> b \<le> 0xEF then
        utf8_decoder (b - 0xE0) 2
          (if b = 0xE0 then 0xA0 else 0x80) (if b = 0xED then 0x9F else 0xBF) bs
      else if 0xF0 \<le> b \<and> b \<le> 0xF4 then
        utf8_decoder (b - 0xF0) 3
          (if b = 0xF0 then 0x90 else 0x80) (if b = 0xF4 then 0x8F else 0xBF) bs
      else 0xFFFD # utf8_decoder 0 0 0x80 0xBF bs)"
  by (subst utf8_decoder.simps) simp

lemma decode_last:
  "lower \<le> b \<Longrightarrow> b \<le> upper \<Longrightarrow>
   utf8_decoder cp (Suc 0) lower upper (b # bs) =
     (cp * 0x40 + (b - 0x80)) # utf8_decoder 0 0 0x80 0xBF bs"
  by (subst utf8_decoder.simps) simp

lemma decode_next:
  "lower \<le> b \<Longrightarrow> b \<le> upper \<Longrightarrow> 1 < needed \<Longrightarrow>
   utf8_decoder cp needed lower upper (b # bs) =
     utf8_decoder (cp * 0x40 + (b - 0x80)) (needed - 1) 0x80 0xBF bs"
  by (subst utf8_decoder.simps) simp

lemma decode_1:
  assumes "c < 0x80"
  shows "utf8_decoder 0 0 0x80 0xBF (utf8_of_code_point c @ rest) =
         c # utf8_decoder 0 0 0x80 0xBF rest"
  using assms by (simp add: utf8_of_code_point_def decode_first)

lemma decode_2:
  assumes "0x80 \<le> c" "c < 0x800"
  shows "utf8_decoder 0 0 0x80 0xBF (utf8_of_code_point c @ rest) =
         c # utf8_decoder 0 0 0x80 0xBF rest"
proof -
  define h where "h = c div 0x40"
  define l where "l = c mod 0x40"
  have c: "c = h * 0x40 + l" by (simp add: h_def l_def)
  have h: "2 \<le> h" "h \<le> 31" using assms by (simp_all add: h_def)
  have l: "l < 0x40" by (simp add: l_def)
  have "utf8_of_code_point c = [0xC0 + h, 0x80 + l]"
    using assms by (simp add: utf8_of_code_point_def h_def l_def)
  moreover have "utf8_decoder 0 0 0x80 0xBF ((0xC0 + h) # (0x80 + l) # rest) =
        utf8_decoder h (Suc 0) 0x80 0xBF ((0x80 + l) # rest)"
    using h by (simp add: decode_first)
  moreover have "utf8_decoder h (Suc 0) 0x80 0xBF ((0x80 + l) # rest) =
        (h * 0x40 + l) # utf8_decoder 0 0 0x80 0xBF rest"
    using l by (simp add: decode_last)
  ultimately show ?thesis by (simp add: c)
qed


lemma decode_3:
  assumes "0x800 \<le> c" "c < 0x10000" "\<not> (0xD800 \<le> c \<and> c \<le> 0xDFFF)"
  shows "utf8_decoder 0 0 0x80 0xBF (utf8_of_code_point c @ rest) =
         c # utf8_decoder 0 0 0x80 0xBF rest"
proof -
  define h where "h = c div 0x1000"
  define m where "m = c div 0x40 mod 0x40"
  define l where "l = c mod 0x40"
  have l: "l < 0x40" and m0: "m < 0x40" by (simp_all add: l_def m_def)
  have "h = c div 0x40 div 0x40"
    by (simp add: h_def div_mult2_eq [symmetric])
  then have c: "c = (h * 0x40 + m) * 0x40 + l"
    by (simp add: m_def l_def)
  then have ce: "c = h * 4096 + m * 64 + l"
    by (simp add: algebra_simps)
  have h: "h \<le> 15" using assms(2) ce by linarith
  have m: "m < 0x40" "h = 0 \<longrightarrow> 0x20 \<le> m" "h = 13 \<longrightarrow> m < 0x20"
    using assms ce l m0 by auto
  have "utf8_of_code_point c = [0xE0 + h, 0x80 + m, 0x80 + l]"
    using assms by (simp add: utf8_of_code_point_def h_def m_def l_def)
  moreover have "utf8_decoder 0 0 0x80 0xBF ((0xE0 + h) # (0x80 + m) # (0x80 + l) # rest) =
        utf8_decoder h 2 (if h = 0 then 0xA0 else 0x80) (if h = 13 then 0x9F else 0xBF)
          ((0x80 + m) # (0x80 + l) # rest)"
    using h by (simp add: decode_first)
  moreover have "utf8_decoder h 2 (if h = 0 then 0xA0 else 0x80) (if h = 13 then 0x9F else 0xBF)
          ((0x80 + m) # (0x80 + l) # rest) =
        utf8_decoder (h * 0x40 + m) (Suc 0) 0x80 0xBF ((0x80 + l) # rest)"
    using m by (subst decode_next) auto
  moreover have "utf8_decoder (h * 0x40 + m) (Suc 0) 0x80 0xBF ((0x80 + l) # rest) =
        ((h * 0x40 + m) * 0x40 + l) # utf8_decoder 0 0 0x80 0xBF rest"
    using l by (simp add: decode_last)
  ultimately show ?thesis using ce by simp
qed

lemma decode_4:
  assumes "0x10000 \<le> c" "c < 0x110000"
  shows "utf8_decoder 0 0 0x80 0xBF (utf8_of_code_point c @ rest) =
         c # utf8_decoder 0 0 0x80 0xBF rest"
proof -
  define h where "h = c div 0x40000"
  define m where "m = c div 0x1000 mod 0x40"
  define k where "k = c div 0x40 mod 0x40"
  define l where "l = c mod 0x40"
  have l: "l < 0x40" and k: "k < 0x40" and m0: "m < 0x40"
    by (simp_all add: l_def k_def m_def)
  have "h = c div 0x40 div 0x40 div 0x40" and "m = c div 0x40 div 0x40 mod 0x40"
    by (simp_all add: h_def m_def div_mult2_eq [symmetric])
  then have c: "c = ((h * 0x40 + m) * 0x40 + k) * 0x40 + l"
    by (simp add: k_def l_def)
  then have ce: "c = h * 262144 + m * 4096 + k * 64 + l"
    by (simp add: algebra_simps)
  have h: "h \<le> 4" using assms(2) ce by linarith
  have m: "m < 0x40" "h = 0 \<longrightarrow> 0x10 \<le> m" "h = 4 \<longrightarrow> m < 0x10"
    using assms ce l k m0 by auto
  have "utf8_of_code_point c = [0xF0 + h, 0x80 + m, 0x80 + k, 0x80 + l]"
    using assms by (simp add: utf8_of_code_point_def h_def m_def k_def l_def)
  moreover have "utf8_decoder 0 0 0x80 0xBF
          ((0xF0 + h) # (0x80 + m) # (0x80 + k) # (0x80 + l) # rest) =
        utf8_decoder h 3 (if h = 0 then 0x90 else 0x80) (if h = 4 then 0x8F else 0xBF)
          ((0x80 + m) # (0x80 + k) # (0x80 + l) # rest)"
    using h by (simp add: decode_first)
  moreover have "utf8_decoder h 3 (if h = 0 then 0x90 else 0x80) (if h = 4 then 0x8F else 0xBF)
          ((0x80 + m) # (0x80 + k) # (0x80 + l) # rest) =
        utf8_decoder (h * 0x40 + m) 2 0x80 0xBF ((0x80 + k) # (0x80 + l) # rest)"
    using m by (subst decode_next) auto
  moreover have "utf8_decoder (h * 0x40 + m) 2 0x80 0xBF ((0x80 + k) # (0x80 + l) # rest) =
        utf8_decoder ((h * 0x40 + m) * 0x40 + k) (Suc 0) 0x80 0xBF ((0x80 + l) # rest)"
    using k by (subst decode_next) auto
  moreover have "utf8_decoder ((h * 0x40 + m) * 0x40 + k) (Suc 0) 0x80 0xBF ((0x80 + l) # rest) =
        (((h * 0x40 + m) * 0x40 + k) * 0x40 + l) # utf8_decoder 0 0 0x80 0xBF rest"
    using l by (simp add: decode_last)
  ultimately show ?thesis using ce by simp
qed

lemma decode_scalar:
  assumes "scalar_value c"
  shows "utf8_decoder 0 0 0x80 0xBF (utf8_of_code_point c @ rest) =
         c # utf8_decoder 0 0 0x80 0xBF rest"
proof (cases "c < 0x80")
  case True
  then show ?thesis by (rule decode_1)
next
  case False
  note ge1 = this
  show ?thesis
  proof (cases "c < 0x800")
    case True
    with ge1 show ?thesis by (intro decode_2) simp_all
  next
    case False
    note ge2 = this
    show ?thesis
    proof (cases "c < 0x10000")
      case True
      with ge2 assms show ?thesis by (intro decode_3) (simp_all add: scalar_value_def)
    next
      case False
      with assms show ?thesis by (intro decode_4) (simp_all add: scalar_value_def)
    qed
  qed
qed

lemma decode_scalars:
  "\<forall>c \<in> set cs. scalar_value c \<Longrightarrow>
   utf8_decoder 0 0 0x80 0xBF (concat (map utf8_of_code_point cs)) = cs"
proof (induction cs)
  case Nil
  show ?case by (simp add: utf8_decoder.simps)
next
  case (Cons c cs)
  then show ?case by (simp add: decode_scalar)
qed

lemma pair_scalar:
  assumes "is_high_surrogate u" "is_low_surrogate v"
  shows "scalar_value (0x10000 + (u - 0xD800) * 0x400 + (v - 0xDC00))"
    and "utf16_of_code_point (0x10000 + (u - 0xD800) * 0x400 + (v - 0xDC00)) = [u, v]"
proof -
  define a where "a = u - 0xD800"
  define b where "b = v - 0xDC00"
  have a: "a < 0x400" "u = 0xD800 + a" and b: "b < 0x400" "v = 0xDC00 + b"
    using assms by (auto simp: a_def b_def is_high_surrogate_def is_low_surrogate_def)
  show "scalar_value (0x10000 + (u - 0xD800) * 0x400 + (v - 0xDC00))"
    using a b by (simp add: scalar_value_def)
  have "(a * 0x400 + b) div 0x400 = a" "(a * 0x400 + b) mod 0x400 = b"
    using b(1) by simp_all
  then show "utf16_of_code_point (0x10000 + (u - 0xD800) * 0x400 + (v - 0xDC00)) = [u, v]"
    using a b by (simp add: utf16_of_code_point_def)
qed

lemma unit_scalar:
  assumes "u < 0x10000" "\<not> is_high_surrogate u" "\<not> is_low_surrogate u"
  shows "scalar_value u" and "utf16_of_code_point u = [u]"
  using assms
  by (auto simp: scalar_value_def utf16_of_code_point_def is_high_surrogate_def
      is_low_surrogate_def)

lemma code_points_well_formed:
  "well_formed_utf16 us \<Longrightarrow> \<forall>u \<in> set us. u < 0x10000 \<Longrightarrow>
   (\<forall>c \<in> set (code_points us). scalar_value c) \<and>
   concat (map utf16_of_code_point (code_points us)) = us"
proof (induction us rule: code_points.induct)
  case 1
  show ?case by simp
next
  case (2 u)
  then show ?case by (simp add: unit_scalar)
next
  case (3 u v us)
  show ?case
  proof (cases "is_high_surrogate u")
    case True
    with "3.prems" have v: "is_low_surrogate v" and wf: "well_formed_utf16 us"
      and lt: "\<forall>u \<in> set us. u < 0x10000"
      by simp_all
    from "3.IH"(1) True v wf lt
    have "(\<forall>c \<in> set (code_points us). scalar_value c) \<and>
          concat (map utf16_of_code_point (code_points us)) = us"
      by simp
    with True v show ?thesis
      by (simp add: pair_scalar)
  next
    case False
    with "3.prems" have u: "\<not> is_low_surrogate u" "u < 0x10000"
      and wf: "well_formed_utf16 (v # us)" and lt: "\<forall>u \<in> set (v # us). u < 0x10000"
      by simp_all
    from "3.IH"(2) False wf lt
    have "(\<forall>c \<in> set (code_points (v # us)). scalar_value c) \<and>
          concat (map utf16_of_code_point (code_points (v # us))) = v # us"
      by simp
    with False u show ?thesis
      by (simp add: unit_scalar)
  qed
qed

lemma code_points_hd:
  "well_formed_utf16 us \<Longrightarrow> us \<noteq> [] \<Longrightarrow> hd us \<noteq> 0xFEFF \<Longrightarrow>
   code_points us \<noteq> [] \<and> hd (code_points us) \<noteq> 0xFEFF"
proof (induction us rule: code_points.induct)
  case 1
  then show ?case by simp
next
  case (2 u)
  then show ?case by simp
next
  case (3 u v us)
  then show ?case
    by (auto simp: is_high_surrogate_def is_low_surrogate_def)
qed

lemma utf8_bytes_lt:
  assumes "scalar_value c"
  shows "\<forall>b \<in> set (utf8_of_code_point c). b < 256"
proof -
  have "c div 0x40 < 0x20" if "c < 0x800"
    using that by simp
  moreover have "c div 0x1000 < 0x10" if "c < 0x10000"
    using that by simp
  moreover have "c div 0x40000 < 0x10"
  proof -
    have "c < 0x10 * 0x40000" using assms by (simp add: scalar_value_def)
    then show ?thesis by (rule less_mult_imp_div_less)
  qed
  moreover have "c mod 0x40 < 0x40" "c div 0x40 mod 0x40 < 0x40" "c div 0x1000 mod 0x40 < 0x40"
    by simp_all
  ultimately show ?thesis
    by (auto simp: utf8_of_code_point_def)
qed

lemma utf8_not_bom:
  assumes "scalar_value c" "c \<noteq> 0xFEFF"
  shows "take 3 (utf8_of_code_point c @ rest) \<noteq> [0xEF, 0xBB, 0xBF]"
proof
  assume bom: "take 3 (utf8_of_code_point c @ rest) = [0xEF, 0xBB, 0xBF]"
  have l: "c mod 0x40 < 0x40" and m: "c div 0x40 mod 0x40 < 0x40" by simp_all
  have e0: "c div 0x1000 = c div 0x40 div 0x40"
    by (simp add: div_mult2_eq [symmetric])
  have e1: "c = c div 0x40 * 64 + c mod 0x40"
    and e2: "c div 0x40 = c div 0x40 div 0x40 * 64 + c div 0x40 mod 0x40"
    by simp_all
  have ce: "c = c div 0x1000 * 4096 + c div 0x40 mod 0x40 * 64 + c mod 0x40"
    unfolding e0 using e1 e2 by linarith
  show False
  proof (cases "c < 0x80")
    case True
    with bom show False by (simp add: utf8_of_code_point_def)
  next
    case False
    note ge1 = this
    show False
    proof (cases "c < 0x800")
      case True
      then have "c div 0x40 < 0x20" by simp
      with ge1 True bom show False by (simp add: utf8_of_code_point_def)
    next
      case False
      note ge2 = this
      show False
      proof (cases "c < 0x10000")
        case True
        with ge1 ge2 bom have "c div 0x1000 = 15" "c div 0x40 mod 0x40 = 0x3B" "c mod 0x40 = 0x3F"
          by (simp_all add: utf8_of_code_point_def)
        with ce have "c = 0xFEFF" by simp
        with assms(2) show False by simp
      next
        case False
        with ge1 ge2 bom show False by (simp add: utf8_of_code_point_def)
      qed
    qed
  qed
qed

lemma strip_bom_utf8:
  assumes "\<forall>c \<in> set cs. scalar_value c" and "cs = [] \<or> hd cs \<noteq> 0xFEFF"
  shows "strip_bom (concat (map utf8_of_code_point cs)) = concat (map utf8_of_code_point cs)"
proof (cases cs)
  case Nil
  then show ?thesis by (simp add: strip_bom_def)
next
  case (Cons c rest)
  with assms have "scalar_value c" "c \<noteq> 0xFEFF" by simp_all
  then have "take 3 (utf8_of_code_point c @ concat (map utf8_of_code_point rest)) \<noteq>
        [0xEF, 0xBB, 0xBF]"
    by (rule utf8_not_bom)
  with Cons show ?thesis by (simp add: strip_bom_def)
qed

lemma codec_round_trip_nat:
  assumes wf: "well_formed_utf16 us" and lt: "\<forall>u \<in> set us. u < 0x10000"
    and bom: "us = [] \<or> hd us \<noteq> 0xFEFF"
  shows "concat (map utf16_of_code_point
           (utf8_decoder 0 0 0x80 0xBF
              (strip_bom (concat (map utf8_of_code_point (code_points us)))))) = us"
proof -
  note cp = code_points_well_formed [OF wf lt]
  have hd: "code_points us = [] \<or> hd (code_points us) \<noteq> 0xFEFF"
  proof (cases "us = []")
    case True
    then show ?thesis by simp
  next
    case False
    with bom code_points_hd [OF wf] show ?thesis by simp
  qed
  from cp have sc: "\<forall>c \<in> set (code_points us). scalar_value c" by simp
  show ?thesis
    by (simp only: strip_bom_utf8 [OF sc hd] decode_scalars [OF sc] cp)
qed

lemma unat_u16_lt: "unat (u :: 16 word) < 0x10000"
  using unsigned_less [of u, where ?'a = nat] by simp

lemma map_of_nat_unat_u16: "map of_nat (map unat (str :: js_string)) = str"
  by (simp add: map_idI)

lemma map_unat_of_nat_u8:
  assumes "\<forall>b \<in> set bs. b < 256"
  shows "map unat (map of_nat bs :: bytes) = bs"
  using assms by (simp add: map_idI unat_of_nat_u8)

text \<open>The codec of the platform gives back every well-formed string that does not begin
  with a byte order mark.\<close>

lemma text_codec_round_trip:
  assumes wf: "well_formed_utf16 (map unat str)"
    and bom: "str = [] \<or> hd str \<noteq> 0xFEFF"
  shows "TextDecoder_decode (TextEncoder_encode str) = str"
proof -
  let ?us = "map unat str"
  have lt: "\<forall>u \<in> set ?us. u < 0x10000"
    using unat_u16_lt by auto
  have hd: "?us = [] \<or> hd ?us \<noteq> 0xFEFF"
  proof (cases str)
    case Nil
    then show ?thesis by simp
  next
    case (Cons u rest)
    with bom have "u \<noteq> 0xFEFF" by simp
    then have "unat u \<noteq> unat (0xFEFF :: 16 word)"
      by (simp only: unsigned_word_eqI not_False_eq_True word_unat_eq_iff)
    with Cons show ?thesis by simp
  qed
  from code_points_well_formed [OF wf lt]
  have sc: "\<forall>c \<in> set (code_points ?us). scalar_value c" by simp
  have "\<forall>b \<in> set (concat (map utf8_of_code_point (code_points ?us))). b < 256"
    using sc utf8_bytes_lt by auto
  then have bytes: "map unat (TextEncoder_encode str) =
      concat (map utf8_of_code_point (code_points ?us))"
    unfolding TextEncoder_encode_def by (rule map_unat_of_nat_u8)
  show ?thesis
    unfolding TextDecoder_decode_def bytes
    by (simp only: codec_round_trip_nat [OF wf lt hd] map_of_nat_unat_u16)
qed

text \<open>
  The round trip of a note, as the code has it. For valid ephemeral and view key pairs
  and every plaintext that is a well-formed UTF-16 string and does not begin with the
  byte order mark U+FEFF, \<^verbatim>\<open>decryptNote\<close> gives back the plaintext of
  \<^verbatim>\<open>encryptNote\<close>.
\<close>

theorem note_round_trip:
  assumes "group_laws L" and "encoding_laws L" and "hash_laws L"
    and "valid_keypair L ephPriv32 ephPub"
    and "valid_keypair L metaViewPriv metaViewPub"
    and "well_formed_utf16 (map unat plaintext)"
    and "plaintext = [] \<or> hd plaintext \<noteq> 0xFEFF"
  shows "\<exists>blob. encryptNote L plaintext ephPriv32 metaViewPub = Inr blob \<and>
           decryptNote L blob metaViewPriv ephPub = Inr plaintext"
  using note_round_trip_codec [OF assms(1-5), of plaintext]
  by (simp add: text_codec_round_trip [OF assms(6,7)])

theorem note_round_trip_witness:
  "\<exists>blob. encryptNote small_libs [0x48, 0xE9, 0x20AC, 0xD83D, 0xDE00]
             (U8 (replicate 31 0 @ [3]))
             (Str (js ''bTdjzaWCb6UY9AZqTMMbPSc3VzHeVR9By6ueiqrY2uVg'')) = Inr blob \<and>
          decryptNote small_libs blob (U8 (replicate 31 0 @ [7]))
            (U8 (2 # replicate 31 0 @ [3])) = Inr [0x48, 0xE9, 0x20AC, 0xD83D, 0xDE00]"
proof -
  have wf: "well_formed_utf16 (map unat [0x48, 0xE9, 0x20AC, 0xD83D, 0xDE00 :: 16 word])"
    by (simp add: is_high_surrogate_def is_low_surrogate_def)
  have bom: "[0x48, 0xE9, 0x20AC, 0xD83D, 0xDE00 :: 16 word] = [] \<or>
      hd [0x48, 0xE9, 0x20AC, 0xD83D, 0xDE00 :: 16 word] \<noteq> 0xFEFF"
    by simp
  show ?thesis
    by (rule note_round_trip
          [OF small_libs_group small_libs_encoding small_libs_hash
              small_valid_keypair [of 3] small_valid_view wf bom])
       simp_all
qed

end
